theory Spec2Isabelle
  imports Main "HOL-Library.Word"
begin

section \<open>Data model of the tiling window manager (src/main.c)\<close>

text \<open>
  All integers of the program are \<^verbatim>\<open>uint32_t\<close> (one field is \<^verbatim>\<open>uint8_t\<close>); they are
  modelled as machine words, so that \<open>+\<close>, \<open>-\<close> and \<open>*\<close> wrap around modulo \<open>2 ^ 32\<close> and
  \<open>div\<close> is the unsigned division of C.
\<close>

type_synonym u32 = "32 word"
type_synonym u8 = "8 word"

definition MAX_WINDOWS_PER_WORKSPACE :: nat where "MAX_WINDOWS_PER_WORKSPACE = 6"
definition WORKSPACE_COUNT :: nat where "WORKSPACE_COUNT = 4"
definition TOP_BAR_HEIGHT :: u32 where "TOP_BAR_HEIGHT = 24"
definition DEFAULT_GAP_SIZE :: u32 where "DEFAULT_GAP_SIZE = 4"
definition DEFAULT_BORDER_SIZE :: u32 where "DEFAULT_BORDER_SIZE = 2"
definition FOCUSED_BORDER_MULTIPLIER :: u32 where "FOCUSED_BORDER_MULTIPLIER = 3"
definition SYMBOL_WIDTH :: u32 where "SYMBOL_WIDTH = 8"
definition SYMBOL_HEIGHT :: u32 where "SYMBOL_HEIGHT = 8"
definition MASTER_RATIO_DEFAULT :: u32 where "MASTER_RATIO_DEFAULT = 50"
definition MASTER_RATIO_MASTER_STACK :: u32 where "MASTER_RATIO_MASTER_STACK = 60"

definition COLOR_BORDER_NORMAL :: u32 where "COLOR_BORDER_NORMAL = 0x928374"
definition COLOR_WINDOW_BG :: u32 where "COLOR_WINDOW_BG = 0x282828"
definition COLOR_BAR_BG :: u32 where "COLOR_BAR_BG = 0x1d2021"
definition COLOR_EMPTY_DESKTOP :: u32 where "COLOR_EMPTY_DESKTOP = 0x3c3836"

text \<open>
  \<^verbatim>\<open>layout_type_t\<close>. The sixth enumerator \<^verbatim>\<open>LAYOUT_COUNT\<close> is the number of variants and
  never the value of a layout; \<open>layout_index\<close> and \<open>layout_of_index\<close> give the
  enumerators their C values 0 to 4.
\<close>

datatype layout_type_t =
  LAYOUT_HORIZONTAL | LAYOUT_VERTICAL | LAYOUT_GRID | LAYOUT_FULLSCREEN | LAYOUT_MASTER_STACK

definition LAYOUT_COUNT :: nat where "LAYOUT_COUNT = 5"

fun layout_index :: "layout_type_t \<Rightarrow> nat" where
  "layout_index LAYOUT_HORIZONTAL = 0"
| "layout_index LAYOUT_VERTICAL = 1"
| "layout_index LAYOUT_GRID = 2"
| "layout_index LAYOUT_FULLSCREEN = 3"
| "layout_index LAYOUT_MASTER_STACK = 4"

definition layout_of_index :: "nat \<Rightarrow> layout_type_t" where
  "layout_of_index n =
     (if n = 0 then LAYOUT_HORIZONTAL
      else if n = 1 then LAYOUT_VERTICAL
      else if n = 2 then LAYOUT_GRID
      else if n = 3 then LAYOUT_FULLSCREEN
      else LAYOUT_MASTER_STACK)"

text \<open>\<^verbatim>\<open>window_t\<close>: the title is the 32-byte buffer \<^verbatim>\<open>char title[32]\<close>.\<close>

record window_t =
  title :: "char list"
  pid :: u32
  is_open :: u8

record layout_config_t =
  ltype :: layout_type_t
  gap_size :: u32
  border_size :: u32
  border_color :: u32
  master_ratio :: u32

text \<open>
  \<^verbatim>\<open>window_position_t\<close>; the fields \<^verbatim>\<open>x, y, width, height, pid\<close> carry the prefix
  \<open>pos_\<close> here.
\<close>

record window_position_t =
  pos_x :: u32
  pos_y :: u32
  pos_width :: u32
  pos_height :: u32
  pos_pid :: u32

record workspace_t =
  windows :: "window_t list"
  window_count :: u32
  layout :: layout_config_t
  focused_window_index :: u32

text \<open>\<^verbatim>\<open>DEFAULT_LAYOUTS\<close>, the table of compiled-in configurations, indexed by variant.\<close>

definition DEFAULT_LAYOUTS :: "layout_type_t \<Rightarrow> layout_config_t" where
  "DEFAULT_LAYOUTS t =
     \<lparr>ltype = t,
      gap_size = DEFAULT_GAP_SIZE,
      border_size = DEFAULT_BORDER_SIZE,
      border_color = COLOR_BORDER_NORMAL,
      master_ratio = (if t = LAYOUT_MASTER_STACK then MASTER_RATIO_MASTER_STACK
                      else MASTER_RATIO_DEFAULT)\<rparr>"

section \<open>Layout calculation\<close>

text \<open>
  Every layout routine is a loop \<^verbatim>\<open>for (i = a; i < b; i++)\<close> that assigns fields of
  \<^verbatim>\<open>positions[i]\<close>. \<open>array_loop a b f\<close> is that loop: it replaces slot \<open>i\<close> by
  \<open>f i\<close> of its old value, for \<open>i\<close> from \<open>a\<close> up to \<open>b - 1\<close> in this order.
\<close>

definition array_loop :: "nat \<Rightarrow> nat \<Rightarrow> (nat \<Rightarrow> 'a \<Rightarrow> 'a) \<Rightarrow> 'a list \<Rightarrow> 'a list" where
  "array_loop a b f ps = fold (\<lambda>i qs. qs[i := f i (qs ! i)]) [a..<b] ps"

definition calculate_horizontal_layout ::
  "u32 \<Rightarrow> window_position_t list \<Rightarrow> u32 \<Rightarrow> u32 \<Rightarrow> u32 \<Rightarrow> window_position_t list" where
  "calculate_horizontal_layout fb_width positions count gap usable_height =
     (let window_width = (fb_width - gap * (count + 1)) div count in
      array_loop 0 (unat count)
        (\<lambda>i p. p\<lparr>pos_x := gap + of_nat i * (window_width + gap),
                  pos_y := TOP_BAR_HEIGHT + gap,
                  pos_width := window_width,
                  pos_height := usable_height - gap\<rparr>) positions)"

definition calculate_vertical_layout ::
  "u32 \<Rightarrow> window_position_t list \<Rightarrow> u32 \<Rightarrow> u32 \<Rightarrow> u32 \<Rightarrow> window_position_t list" where
  "calculate_vertical_layout fb_width positions count gap usable_height =
     (let window_height = (usable_height - gap * (count + 1)) div count in
      array_loop 0 (unat count)
        (\<lambda>i p. p\<lparr>pos_x := gap,
                  pos_y := TOP_BAR_HEIGHT + gap + of_nat i * (window_height + gap),
                  pos_width := fb_width - gap * 2,
                  pos_height := window_height\<rparr>) positions)"

definition calculate_grid_layout ::
  "u32 \<Rightarrow> window_position_t list \<Rightarrow> u32 \<Rightarrow> u32 \<Rightarrow> u32 \<Rightarrow> window_position_t list" where
  "calculate_grid_layout fb_width positions count gap usable_height =
     (let cols = 2;
          rows = (count + 1) div 2;
          cell_width = (fb_width - gap * (cols + 1)) div cols;
          cell_height = (usable_height - gap * (rows + 1)) div rows in
      array_loop 0 (unat count)
        (\<lambda>i p. let col = of_nat i mod cols; row = of_nat i div cols in
                p\<lparr>pos_x := gap + col * (cell_width + gap),
                  pos_y := TOP_BAR_HEIGHT + gap + row * (cell_height + gap),
                  pos_width := cell_width,
                  pos_height := cell_height\<rparr>) positions)"

definition calculate_fullscreen_layout ::
  "u32 \<Rightarrow> window_position_t list \<Rightarrow> u32 \<Rightarrow> u32 \<Rightarrow> u32 \<Rightarrow> window_position_t list" where
  "calculate_fullscreen_layout fb_width positions count gap usable_height =
     array_loop 0 (unat count)
       (\<lambda>i p. p\<lparr>pos_x := gap,
                 pos_y := TOP_BAR_HEIGHT + gap,
                 pos_width := fb_width - gap * 2,
                 pos_height := usable_height - gap\<rparr>) positions"

definition calculate_master_stack_layout ::
  "u32 \<Rightarrow> window_position_t list \<Rightarrow> u32 \<Rightarrow> u32 \<Rightarrow> u32 \<Rightarrow> u32 \<Rightarrow> window_position_t list" where
  "calculate_master_stack_layout fb_width positions count gap usable_height ratio =
     (if count = 1 then
        positions[0 := (positions ! 0)\<lparr>pos_x := gap,
                                       pos_y := TOP_BAR_HEIGHT + gap,
                                       pos_width := fb_width - gap * 2,
                                       pos_height := usable_height - gap\<rparr>]
      else
        let master_width = (fb_width * ratio div 100) - gap * 2;
            stack_width = fb_width - master_width - gap * 3;
            positions1 = positions[0 := (positions ! 0)\<lparr>pos_x := gap,
                                                        pos_y := TOP_BAR_HEIGHT + gap,
                                                        pos_width := master_width,
                                                        pos_height := usable_height - gap\<rparr>];
            stack_count = count - 1;
            stack_height = (usable_height - gap * (stack_count + 1)) div stack_count in
        array_loop 1 (unat count)
          (\<lambda>i p. p\<lparr>pos_x := master_width + gap * 2,
                    pos_y := TOP_BAR_HEIGHT + gap + (of_nat i - 1) * (stack_height + gap),
                    pos_width := stack_width,
                    pos_height := stack_height\<rparr>) positions1)"

text \<open>
  \<^verbatim>\<open>compute_window_positions\<close> writes \<^verbatim>\<open>positions[i]\<close> for every \<open>i < count\<close> (its first
  loop resets those slots), so it runs past the array when \<open>count\<close> exceeds the number of
  slots. C leaves that undefined; the model returns \<open>None\<close> there. The routines above
  are called from here only, with a count that is in range and not zero. Their divisors
  are \<open>count\<close>, the row number \<open>(count + 1) div 2\<close> of the grid, and \<open>count - 1\<close>
  after the test \<open>count = 1\<close>; only the row number can then be zero (when \<open>count + 1\<close>
  wraps around to 0), and that division by zero is \<open>None\<close> as well.
\<close>

definition compute_window_positions ::
  "u32 \<Rightarrow> u32 \<Rightarrow> window_position_t list \<Rightarrow> u32 \<Rightarrow> layout_config_t
     \<Rightarrow> window_position_t list option" where
  "compute_window_positions fb_width fb_height positions count config =
     (if length positions < unat count then None
      else
        let gap = gap_size config;
            usable_height = fb_height - TOP_BAR_HEIGHT - gap;
            positions0 = array_loop 0 (unat count)
              (\<lambda>i p. p\<lparr>pos_x := 0, pos_y := TOP_BAR_HEIGHT,
                        pos_width := 0, pos_height := 0\<rparr>) positions in
        if count = 0 then Some positions0
        else (case ltype config of
            LAYOUT_HORIZONTAL \<Rightarrow>
              Some (calculate_horizontal_layout fb_width positions0 count gap usable_height)
          | LAYOUT_VERTICAL \<Rightarrow>
              Some (calculate_vertical_layout fb_width positions0 count gap usable_height)
          | LAYOUT_GRID \<Rightarrow>
              if (count + 1) div 2 = 0 then None
              else Some (calculate_grid_layout fb_width positions0 count gap usable_height)
          | LAYOUT_FULLSCREEN \<Rightarrow>
              Some (calculate_fullscreen_layout fb_width positions0 count gap usable_height)
          | LAYOUT_MASTER_STACK \<Rightarrow>
              Some (calculate_master_stack_layout fb_width positions0 count gap usable_height
                      (master_ratio config))))"

section \<open>Global state and drawing\<close>

text \<open>
  The file-scope variables of the program. \<^verbatim>\<open>g_framebuffer\<close> is the pixel memory the
  kernel hands out, read here as a function from pixel offset to colour;
  \<^verbatim>\<open>g_active_workspace\<close> is initialised to 0 and assigned nowhere, so it is a constant.
  \<open>fill_trace\<close> is not a variable of the program: it records, in order, the arguments of
  every call of \<^verbatim>\<open>fill_rect\<close>, so that statements about which draw calls are made can be
  written down.
\<close>

datatype draw_call = FillRect u32 u32 u32 u32 u32

record wm_state =
  g_workspaces :: "workspace_t list"
  g_framebuffer :: "u32 \<Rightarrow> u32"
  g_fb_width :: u32
  g_fb_height :: u32
  g_fb_pitch_pixels :: u32
  g_prev_positions :: "window_position_t list"
  g_prev_window_count :: u32
  g_prev_layout :: layout_type_t
  g_prev_focused :: u32
  fill_trace :: "draw_call list"

definition g_active_workspace :: nat where "g_active_workspace = 0"

definition active_workspace :: "wm_state \<Rightarrow> workspace_t" where
  "active_workspace st = g_workspaces st ! g_active_workspace"

definition set_active_workspace :: "workspace_t \<Rightarrow> wm_state \<Rightarrow> wm_state" where
  "set_active_workspace ws st =
     st\<lparr>g_workspaces := (g_workspaces st)[g_active_workspace := ws]\<rparr>"

definition set_pixel :: "u32 \<Rightarrow> u32 \<Rightarrow> u32 \<Rightarrow> wm_state \<Rightarrow> wm_state" where
  "set_pixel px py color st =
     (if px < g_fb_width st \<and> py < g_fb_height st
      then st\<lparr>g_framebuffer := (g_framebuffer st)(py * g_fb_pitch_pixels st + px := color)\<rparr>
      else st)"

definition fill_rect :: "u32 \<Rightarrow> u32 \<Rightarrow> u32 \<Rightarrow> u32 \<Rightarrow> u32 \<Rightarrow> wm_state \<Rightarrow> wm_state" where
  "fill_rect px py w h color st =
     fold (\<lambda>dy s. fold (\<lambda>dx. set_pixel (px + of_nat dx) (py + of_nat dy) color) [0..<unat w] s)
       [0..<unat h]
       (st\<lparr>fill_trace := fill_trace st @ [FillRect px py w h color]\<rparr>)"

definition clear_screen :: "wm_state \<Rightarrow> wm_state" where
  "clear_screen st = fill_rect 0 0 (g_fb_width st) (g_fb_height st) COLOR_BAR_BG st"

text \<open>
  C strings: an argument of type \<^verbatim>\<open>const char*\<close> is given by the characters in memory
  from the pointer on; the string ends before the first NUL (or where the list ends).
  \<^verbatim>\<open>string_copy\<close> has no bound of its own: it writes the characters and one NUL into the
  destination buffer, which is undefined (\<open>None\<close>) when they do not fit.
\<close>

definition NUL :: char where "NUL = CHR 0x00"

definition c_string :: "char list \<Rightarrow> char list" where
  "c_string s = takeWhile (\<lambda>c. c \<noteq> NUL) s"

definition string_length :: "char list \<Rightarrow> u32" where
  "string_length s = of_nat (length (c_string s))"

definition string_copy :: "char list \<Rightarrow> char list \<Rightarrow> char list option" where
  "string_copy dest src =
     (let s = c_string src in
      if length s < length dest then Some (s @ [NUL] @ drop (length s + 1) dest) else None)"

definition draw_top_bar :: "wm_state \<Rightarrow> wm_state" where
  "draw_top_bar st = fill_rect 0 0 (g_fb_width st) TOP_BAR_HEIGHT COLOR_BAR_BG st"

definition draw_window_frame ::
  "window_position_t \<Rightarrow> u32 \<Rightarrow> u32 \<Rightarrow> bool \<Rightarrow> wm_state \<Rightarrow> wm_state" where
  "draw_window_frame position bsize bcolor is_focused st =
     (let px = pos_x position; py = pos_y position;
          w = pos_width position; h = pos_height position;
          border = (if is_focused then bsize * FOCUSED_BORDER_MULTIPLIER else bsize);
          st1 = fill_rect (px + border) (py + border) (w - border * 2) (h - border * 2)
                  COLOR_WINDOW_BG st;
          st2 = fill_rect px py w border bcolor st1;
          st3 = fill_rect px (py + h - border) w border bcolor st2;
          st4 = fill_rect px py border h bcolor st3 in
      fill_rect (px + w - border) py border h bcolor st4)"

definition draw_empty_desktop_indicator :: "wm_state \<Rightarrow> wm_state" where
  "draw_empty_desktop_indicator st =
     (let text = ''~'';
          text_width = string_length text * SYMBOL_WIDTH;
          px = (g_fb_width st - text_width) div 2;
          py = g_fb_height st div 2 - SYMBOL_HEIGHT div 2 in
      fold (\<lambda>i. fill_rect (px + of_nat i * SYMBOL_WIDTH) py SYMBOL_WIDTH SYMBOL_HEIGHT
                  COLOR_EMPTY_DESKTOP)
        [0..<unat (string_length text)] st)"

section \<open>The incremental redraw\<close>

text \<open>
  The local array \<^verbatim>\<open>positions\<close> of \<^verbatim>\<open>redraw_incremental\<close> is not initialised in C. The
  model starts it with zeros and is undefined (\<open>None\<close>) wherever the program would read
  a slot that \<^verbatim>\<open>compute_window_positions\<close> has not written, or a slot outside one of the
  arrays; so the zeros never reach a result.
\<close>

definition local_positions :: "window_position_t list" where
  "local_positions =
     replicate MAX_WINDOWS_PER_WORKSPACE
       \<lparr>pos_x = 0, pos_y = 0, pos_width = 0, pos_height = 0, pos_pid = 0\<rparr>"

text \<open>The first loop of the structural path: paint the bar colour over every rectangle
  of the snapshot.\<close>

definition erase_previous :: "wm_state \<Rightarrow> wm_state" where
  "erase_previous st =
     fold (\<lambda>i s. let p = g_prev_positions s ! i in
                  fill_rect (pos_x p) (pos_y p) (pos_width p) (pos_height p) COLOR_BAR_BG s)
       [0..<unat (g_prev_window_count st)] st"

text \<open>The second loop of the structural path. Iteration \<open>i\<close> stores the window's pid in
  \<^verbatim>\<open>positions[i]\<close>, draws that rectangle and copies it into the snapshot; no other
  iteration looks at slot \<open>i\<close>.\<close>

definition draw_windows :: "workspace_t \<Rightarrow> window_position_t list \<Rightarrow> wm_state \<Rightarrow> wm_state" where
  "draw_windows ws positions st =
     fold (\<lambda>i s. let p = (positions ! i)\<lparr>pos_pid := pid (windows ws ! i)\<rparr>;
                      s1 = draw_window_frame p (border_size (layout ws)) (border_color (layout ws))
                             (of_nat i = focused_window_index ws) s in
                  s1\<lparr>g_prev_positions := (g_prev_positions s1)[i := p]\<rparr>)
       [0..<unat (window_count ws)] st"

definition update_snapshot :: "workspace_t \<Rightarrow> wm_state \<Rightarrow> wm_state" where
  "update_snapshot ws st =
     st\<lparr>g_prev_window_count := window_count ws,
        g_prev_layout := ltype (layout ws),
        g_prev_focused := focused_window_index ws\<rparr>"

definition redraw_incremental :: "wm_state \<Rightarrow> wm_state option" where
  "redraw_incremental st =
     (let ws = active_workspace st in
      if window_count ws \<noteq> g_prev_window_count st \<or> ltype (layout ws) \<noteq> g_prev_layout st then
        if length (g_prev_positions st) < unat (g_prev_window_count st) then None
        else
          let st1 = erase_previous st in
          if window_count ws = 0 then
            Some (update_snapshot ws (draw_empty_desktop_indicator st1))
          else
            (case compute_window_positions (g_fb_width st) (g_fb_height st) local_positions
                    (window_count ws) (layout ws) of
               None \<Rightarrow> None
             | Some positions \<Rightarrow>
                 if length (windows ws) < unat (window_count ws)
                    \<or> length (g_prev_positions st) < unat (window_count ws) then None
                 else Some (update_snapshot ws (draw_windows ws positions st1)))
      else if focused_window_index ws \<noteq> g_prev_focused st then
        (case compute_window_positions (g_fb_width st) (g_fb_height st) local_positions
                (window_count ws) (layout ws) of
           None \<Rightarrow> None
         | Some positions \<Rightarrow>
             if g_prev_focused st < window_count ws \<and> focused_window_index ws < window_count ws
             then
               let st1 = draw_window_frame (positions ! unat (g_prev_focused st))
                           (border_size (layout ws)) (border_color (layout ws)) False st;
                   st2 = draw_window_frame (positions ! unat (focused_window_index ws))
                           (border_size (layout ws)) (border_color (layout ws)) True st1 in
               Some (st2\<lparr>g_prev_focused := focused_window_index ws\<rparr>)
             else None)
      else Some st)"

section \<open>Workspace and window management\<close>

definition initialize_workspaces :: "wm_state \<Rightarrow> wm_state" where
  "initialize_workspaces st =
     st\<lparr>g_workspaces :=
          array_loop 0 WORKSPACE_COUNT
            (\<lambda>i ws. ws\<lparr>window_count := 0,
                        layout := DEFAULT_LAYOUTS LAYOUT_GRID,
                        focused_window_index := 0,
                        windows := array_loop 0 MAX_WINDOWS_PER_WORKSPACE
                          (\<lambda>j w. w\<lparr>is_open := 0, title := (title w)[0 := NUL]\<rparr>) (windows ws)\<rparr>)
            (g_workspaces st)\<rparr>"

definition add_window_to_current_workspace :: "char list \<Rightarrow> wm_state \<Rightarrow> wm_state option" where
  "add_window_to_current_workspace new_title st =
     (let ws = active_workspace st in
      if MAX_WINDOWS_PER_WORKSPACE \<le> unat (window_count ws) then Some st
      else
        let n = window_count ws; win = windows ws ! unat n in
        case string_copy (title win) new_title of
          None \<Rightarrow> None
        | Some t \<Rightarrow>
            let win1 = win\<lparr>title := t, is_open := 1, pid := n\<rparr>;
                ws1 = ws\<lparr>windows := (windows ws)[unat n := win1], window_count := n + 1\<rparr>;
                ws2 = ws1\<lparr>focused_window_index := window_count ws1 - 1\<rparr> in
            redraw_incremental (set_active_workspace ws2 st))"

text \<open>The loop of \<^verbatim>\<open>close_current_window\<close> copies slot \<open>i + 1\<close> into slot \<open>i\<close> for
  \<open>i\<close> from the focused index up to \<open>window_count - 2\<close>; it reads past the array when it
  runs at all on a count beyond the capacity.\<close>

definition shift_left :: "nat \<Rightarrow> nat \<Rightarrow> 'a list \<Rightarrow> 'a list" where
  "shift_left a b xs = fold (\<lambda>i ys. ys[i := ys ! (i + 1)]) [a..<b] xs"

definition close_current_window :: "wm_state \<Rightarrow> wm_state option" where
  "close_current_window st =
     (let ws = active_workspace st in
      if window_count ws = 0 then Some st
      else
        let focused = focused_window_index ws in
        if focused < window_count ws - 1 \<and> length (windows ws) < unat (window_count ws)
        then None
        else
          let ws1 = ws\<lparr>windows := shift_left (unat focused) (unat (window_count ws - 1))
                                     (windows ws)\<rparr>;
              ws2 = ws1\<lparr>window_count := window_count ws1 - 1\<rparr>;
              ws3 = (if window_count ws2 = 0 then ws2\<lparr>focused_window_index := 0\<rparr>
                     else if window_count ws2 \<le> focused
                          then ws2\<lparr>focused_window_index := window_count ws2 - 1\<rparr>
                     else ws2) in
          redraw_incremental (set_active_workspace ws3 st))"

definition cycle_focus :: "int \<Rightarrow> wm_state \<Rightarrow> wm_state option" where
  "cycle_focus direction st =
     (let ws = active_workspace st in
      if window_count ws = 0 then Some st
      else
        let ws1 = (if 0 < direction
                   then ws\<lparr>focused_window_index :=
                             (focused_window_index ws + 1) mod window_count ws\<rparr>
                   else ws\<lparr>focused_window_index :=
                             (focused_window_index ws + window_count ws - 1)
                               mod window_count ws\<rparr>) in
        redraw_incremental (set_active_workspace ws1 st))"

definition cycle_layout :: "wm_state \<Rightarrow> wm_state option" where
  "cycle_layout st =
     (let ws = active_workspace st;
          current = ltype (layout ws);
          next = layout_of_index ((layout_index current + 1) mod LAYOUT_COUNT) in
      redraw_incremental (set_active_workspace (ws\<lparr>layout := DEFAULT_LAYOUTS next\<rparr>) st))"

text \<open>The keyboard callbacks.\<close>

definition on_cycle_focus_next :: "wm_state \<Rightarrow> wm_state option" where
  "on_cycle_focus_next st = cycle_focus 1 st"

definition on_cycle_layout :: "wm_state \<Rightarrow> wm_state option" where
  "on_cycle_layout st = cycle_layout st"

definition on_new_window :: "wm_state \<Rightarrow> wm_state option" where
  "on_new_window st = add_window_to_current_workspace ''template'' st"

definition on_close_window :: "wm_state \<Rightarrow> wm_state option" where
  "on_close_window st = close_current_window st"

section \<open>Entry point\<close>

text \<open>
  The variables have static storage, so before \<^verbatim>\<open>_start\<close> runs they hold their
  initialisers or zero. The framebuffer pointer is still NULL then; the pixel memory of
  \<open>static_state\<close> stands for nothing and is never written, the screen being 0 by 0.
\<close>

definition static_state :: wm_state where
  "static_state =
     \<lparr>g_workspaces = replicate WORKSPACE_COUNT
        \<lparr>windows = replicate MAX_WINDOWS_PER_WORKSPACE
           \<lparr>title = replicate 32 NUL, pid = 0, is_open = 0\<rparr>,
         window_count = 0,
         layout = \<lparr>ltype = LAYOUT_HORIZONTAL, gap_size = 0, border_size = 0,
                   border_color = 0, master_ratio = 0\<rparr>,
         focused_window_index = 0\<rparr>,
      g_framebuffer = (\<lambda>_. 0),
      g_fb_width = 0, g_fb_height = 0, g_fb_pitch_pixels = 0,
      g_prev_positions = replicate MAX_WINDOWS_PER_WORKSPACE
        \<lparr>pos_x = 0, pos_y = 0, pos_width = 0, pos_height = 0, pos_pid = 0\<rparr>,
      g_prev_window_count = 0,
      g_prev_layout = LAYOUT_GRID,
      g_prev_focused = 0,
      fill_trace = []\<rparr>"

text \<open>
  \<^verbatim>\<open>_start\<close> up to, and without, its call of \<^verbatim>\<open>redraw_incremental\<close>. The kernel's answers
  are parameters: the pixel memory behind \<^verbatim>\<open>get_framebuffer\<close>, the three values stored by
  \<^verbatim>\<open>get_fb_dimensions\<close> and the value of \<^verbatim>\<open>get_fb_pitch_pixels\<close>, which replaces the
  third. \<^verbatim>\<open>clear_screen\<close> runs first, on the 0 by 0 screen.
\<close>

definition start_before_redraw :: "(u32 \<Rightarrow> u32) \<Rightarrow> u32 \<Rightarrow> u32 \<Rightarrow> u32 \<Rightarrow> u32 \<Rightarrow> wm_state" where
  "start_before_redraw fb w h pitch0 pitch =
     (let st1 = clear_screen static_state;
          st2 = st1\<lparr>g_framebuffer := fb\<rparr>;
          st3 = st2\<lparr>g_fb_width := w, g_fb_height := h, g_fb_pitch_pixels := pitch0\<rparr>;
          st4 = st3\<lparr>g_fb_pitch_pixels := pitch\<rparr>;
          st5 = initialize_workspaces st4 in
      st5\<lparr>g_prev_window_count := 0, g_prev_layout := LAYOUT_GRID, g_prev_focused := 0\<rparr>)"

text \<open>\<^verbatim>\<open>_start\<close>; registering the four hotkeys changes nothing in this state.\<close>

definition start :: "(u32 \<Rightarrow> u32) \<Rightarrow> u32 \<Rightarrow> u32 \<Rightarrow> u32 \<Rightarrow> u32 \<Rightarrow> wm_state option" where
  "start fb w h pitch0 pitch = redraw_incremental (start_before_redraw fb w h pitch0 pitch)"

section \<open>Notions used to state the properties\<close>

text \<open>The arrays have the sizes of their declarations: 4 workspaces, 6 window slots with
  titles of 32 bytes in the active workspace, 6 rectangles in the snapshot.\<close>

definition ws_shape :: "workspace_t \<Rightarrow> bool" where
  "ws_shape ws =
     (length (windows ws) = MAX_WINDOWS_PER_WORKSPACE \<and>
      (\<forall>w \<in> set (windows ws). length (title w) = 32))"

definition array_shapes :: "wm_state \<Rightarrow> bool" where
  "array_shapes st =
     (length (g_workspaces st) = WORKSPACE_COUNT \<and>
      ws_shape (active_workspace st) \<and>
      length (g_prev_positions st) = MAX_WINDOWS_PER_WORKSPACE)"

text \<open>The workspace invariant: the focus index points at a window whenever there is
  one, and the count is within the capacity.\<close>

definition ws_invariant :: "workspace_t \<Rightarrow> bool" where
  "ws_invariant ws =
     ((0 < window_count ws \<longrightarrow> focused_window_index ws < window_count ws) \<and>
      unat (window_count ws) \<le> MAX_WINDOWS_PER_WORKSPACE)"

text \<open>The snapshot records the count, the variant and the focus of the active workspace:
  the situation right after any call of \<^verbatim>\<open>redraw_incremental\<close>.\<close>

definition snapshot_in_sync :: "wm_state \<Rightarrow> bool" where
  "snapshot_in_sync st =
     (g_prev_window_count st = window_count (active_workspace st) \<and>
      g_prev_layout st = ltype (layout (active_workspace st)) \<and>
      g_prev_focused st = focused_window_index (active_workspace st))"

text \<open>An operation preserves the workspace invariant: whenever it returns, the invariant
  holds again, and it does return from every state whose snapshot is in sync, leaving the
  snapshot in sync and the arrays in shape.\<close>

definition preserves_invariant :: "(wm_state \<Rightarrow> wm_state option) \<Rightarrow> bool" where
  "preserves_invariant op =
     (\<forall>st. array_shapes st \<and> ws_invariant (active_workspace st) \<longrightarrow>
        (\<forall>st'. op st = Some st' \<longrightarrow> ws_invariant (active_workspace st')) \<and>
        (snapshot_in_sync st \<longrightarrow>
           (\<exists>st'. op st = Some st' \<and> array_shapes st' \<and> snapshot_in_sync st')))"

text \<open>\<open>painted st px py w h a\<close>: the call \<^verbatim>\<open>fill_rect(px, py, w, h, _)\<close> writes the pixel at
  offset \<open>a\<close> of the framebuffer, that is, \<open>a\<close> is the offset of a point of the rectangle
  that passes the clipping test of \<^verbatim>\<open>set_pixel\<close>.\<close>

definition painted :: "wm_state \<Rightarrow> u32 \<Rightarrow> u32 \<Rightarrow> u32 \<Rightarrow> u32 \<Rightarrow> u32 \<Rightarrow> bool" where
  "painted st px py w h a =
     (\<exists>dy < unat h. \<exists>dx < unat w.
        px + of_nat dx < g_fb_width st \<and> py + of_nat dy < g_fb_height st \<and>
        a = (py + of_nat dy) * g_fb_pitch_pixels st + (px + of_nat dx))"

fun paints :: "wm_state \<Rightarrow> draw_call \<Rightarrow> u32 \<Rightarrow> bool" where
  "paints st (FillRect px py w h c) a = painted st px py w h a"

text \<open>\<open>only_draws st st'\<close>: the two states differ in the pixels and the trace at most.\<close>

definition only_draws :: "wm_state \<Rightarrow> wm_state \<Rightarrow> bool" where
  "only_draws st st' =
     (g_workspaces st' = g_workspaces st \<and>
      g_fb_width st' = g_fb_width st \<and>
      g_fb_height st' = g_fb_height st \<and>
      g_fb_pitch_pixels st' = g_fb_pitch_pixels st \<and>
      g_prev_positions st' = g_prev_positions st \<and>
      g_prev_window_count st' = g_prev_window_count st \<and>
      g_prev_layout st' = g_prev_layout st \<and>
      g_prev_focused st' = g_prev_focused st)"

text \<open>The pixels after one call of \<^verbatim>\<open>fill_rect\<close> and after a list of calls made in order,
  starting from the pixels \<open>fb\<close>: a pixel that a call writes takes the colour of that call,
  so it ends up with the colour of the last call that writes it.\<close>

fun paint_call :: "wm_state \<Rightarrow> draw_call \<Rightarrow> (u32 \<Rightarrow> u32) \<Rightarrow> u32 \<Rightarrow> u32" where
  "paint_call st (FillRect px py w h c) fb = (\<lambda>a. if painted st px py w h a then c else fb a)"

definition paint_calls :: "wm_state \<Rightarrow> draw_call list \<Rightarrow> (u32 \<Rightarrow> u32) \<Rightarrow> u32 \<Rightarrow> u32" where
  "paint_calls st cs fb = fold (paint_call st) cs fb"

text \<open>\<open>draws st cs st'\<close>: from \<open>st\<close> to \<open>st'\<close> exactly the calls \<open>cs\<close> of \<^verbatim>\<open>fill_rect\<close> were
  made and nothing but pixels changed; the pixels of \<open>st'\<close> are those of \<open>st\<close> painted over
  by the calls in order, so that every pixel a call writes has the colour of the last
  call that writes it and every pixel that none of the calls writes kept its colour.\<close>

definition draws :: "wm_state \<Rightarrow> draw_call list \<Rightarrow> wm_state \<Rightarrow> bool" where
  "draws st cs st' =
     (only_draws st st' \<and>
      fill_trace st' = fill_trace st @ cs \<and>
      g_framebuffer st' = paint_calls st cs (g_framebuffer st) \<and>
      (\<forall>a. (\<forall>c \<in> set cs. \<not> paints st c a) \<longrightarrow> g_framebuffer st' a = g_framebuffer st a))"

text \<open>The five calls of \<^verbatim>\<open>fill_rect\<close> that draw one window frame with a border of the
  given thickness: the background inside, then the top, bottom, left and right edge.\<close>

definition frame_calls :: "window_position_t \<Rightarrow> u32 \<Rightarrow> u32 \<Rightarrow> draw_call list" where
  "frame_calls p border bcolor =
     [FillRect (pos_x p + border) (pos_y p + border)
        (pos_width p - border * 2) (pos_height p - border * 2) COLOR_WINDOW_BG,
      FillRect (pos_x p) (pos_y p) (pos_width p) border bcolor,
      FillRect (pos_x p) (pos_y p + pos_height p - border) (pos_width p) border bcolor,
      FillRect (pos_x p) (pos_y p) border (pos_height p) bcolor,
      FillRect (pos_x p + pos_width p - border) (pos_y p) border (pos_height p) bcolor]"

text \<open>The rectangle of window \<open>i\<close> as the structural path draws and stores it, and the
  calls that draw all windows of a workspace in index order, the focused one with the
  tripled border.\<close>

definition window_rect :: "workspace_t \<Rightarrow> window_position_t list \<Rightarrow> nat \<Rightarrow> window_position_t" where
  "window_rect ws positions i = (positions ! i)\<lparr>pos_pid := pid (windows ws ! i)\<rparr>"

definition window_border :: "workspace_t \<Rightarrow> nat \<Rightarrow> u32" where
  "window_border ws i =
     (if of_nat i = focused_window_index ws
      then border_size (layout ws) * FOCUSED_BORDER_MULTIPLIER
      else border_size (layout ws))"

definition all_frame_calls :: "workspace_t \<Rightarrow> window_position_t list \<Rightarrow> draw_call list" where
  "all_frame_calls ws positions =
     concat (map (\<lambda>i. frame_calls (window_rect ws positions i) (window_border ws i)
                        (border_color (layout ws)))
               [0..<unat (window_count ws)])"

text \<open>A rectangle of positive size that lies on the screen below the top bar. The sums
  are taken in the natural numbers, so a rectangle that wraps around does not count.\<close>

definition rect_in_screen :: "u32 \<Rightarrow> u32 \<Rightarrow> window_position_t \<Rightarrow> bool" where
  "rect_in_screen fb_width fb_height p =
     (0 < pos_width p \<and> 0 < pos_height p \<and>
      unat (pos_x p) + unat (pos_width p) \<le> unat fb_width \<and>
      unat TOP_BAR_HEIGHT \<le> unat (pos_y p) \<and>
      unat (pos_y p) + unat (pos_height p) \<le> unat fb_height)"

text \<open>The cyclic order of the variants, as a table.\<close>

fun next_variant :: "layout_type_t \<Rightarrow> layout_type_t" where
  "next_variant LAYOUT_HORIZONTAL = LAYOUT_VERTICAL"
| "next_variant LAYOUT_VERTICAL = LAYOUT_GRID"
| "next_variant LAYOUT_GRID = LAYOUT_FULLSCREEN"
| "next_variant LAYOUT_FULLSCREEN = LAYOUT_MASTER_STACK"
| "next_variant LAYOUT_MASTER_STACK = LAYOUT_HORIZONTAL"


text \<open>An example state on a 640 by 480 screen: \<open>n\<close> windows titled \<^verbatim>\<open>template\<close> on the
  active workspace, as \<^verbatim>\<open>add_window_to_current_workspace\<close> creates them, the focus index
  \<open>f\<close>, the default configuration of the variant \<open>t\<close>, count, variant and focus of
  the snapshot in sync, its rectangles zero, every pixel in the bar colour.\<close>

definition example_window :: "nat \<Rightarrow> window_t" where
  "example_window i = \<lparr>title = ''template'' @ replicate 24 NUL, pid = of_nat i, is_open = 1\<rparr>"

definition example_workspace :: "nat \<Rightarrow> u32 \<Rightarrow> layout_type_t \<Rightarrow> workspace_t" where
  "example_workspace n f t =
     \<lparr>windows = map example_window [0..<n]
                 @ replicate (MAX_WINDOWS_PER_WORKSPACE - n)
                     \<lparr>title = replicate 32 NUL, pid = 0, is_open = 0\<rparr>,
      window_count = of_nat n,
      layout = DEFAULT_LAYOUTS t,
      focused_window_index = f\<rparr>"

definition example_state :: "nat \<Rightarrow> u32 \<Rightarrow> layout_type_t \<Rightarrow> wm_state" where
  "example_state n f t =
     \<lparr>g_workspaces = example_workspace n f t
                      # replicate 3 (example_workspace 0 0 LAYOUT_GRID),
      g_framebuffer = (\<lambda>_. COLOR_BAR_BG),
      g_fb_width = 640, g_fb_height = 480, g_fb_pitch_pixels = 640,
      g_prev_positions = replicate MAX_WINDOWS_PER_WORKSPACE
        \<lparr>pos_x = 0, pos_y = 0, pos_width = 0, pos_height = 0, pos_pid = 0\<rparr>,
      g_prev_window_count = of_nat n,
      g_prev_layout = t,
      g_prev_focused = f,
      fill_trace = []\<rparr>"

section \<open>Loops over arrays\<close>

lemma length_array_loop: "length (array_loop a b f ps) = length ps"
proof -
  have "length (fold (\<lambda>i qs. qs[i := f i (qs ! i)]) is ps) = length ps" for "is"
    by (induction "is" arbitrary: ps) simp_all
  then show ?thesis by (simp add: array_loop_def)
qed

lemma array_loop_Suc:
  "a \<le> b \<Longrightarrow> array_loop a (Suc b) f ps = (array_loop a b f ps)[b := f b (array_loop a b f ps ! b)]"
  by (simp add: array_loop_def)

lemma array_loop_empty: "b \<le> a \<Longrightarrow> array_loop a b f ps = ps"
  by (simp add: array_loop_def)

lemma nth_array_loop:
  "i < length ps \<Longrightarrow>
     array_loop a b f ps ! i = (if a \<le> i \<and> i < b then f i (ps ! i) else ps ! i)"
proof (induction b)
  case 0
  then show ?case by (simp add: array_loop_empty)
next
  case (Suc b)
  show ?case
  proof (cases "a \<le> b")
    case True
    show ?thesis
    proof (cases "i = b")
      case True
      with \<open>a \<le> b\<close> Suc show ?thesis
        by (simp add: array_loop_Suc length_array_loop)
    next
      case False
      with \<open>a \<le> b\<close> Suc show ?thesis
        by (auto simp: array_loop_Suc length_array_loop)
    qed
  next
    case False
    then have "array_loop a (Suc b) f ps = ps" by (simp add: array_loop_empty)
    with False show ?thesis by auto
  qed
qed



section \<open>Drawing\<close>

lemma fold_set_pixel_row:
  "fold (\<lambda>dx. set_pixel (px + of_nat dx) y c) [0..<n] s =
     s\<lparr>g_framebuffer := (\<lambda>a. if (\<exists>dx < n. px + of_nat dx < g_fb_width s \<and> y < g_fb_height s \<and>
                                   a = y * g_fb_pitch_pixels s + (px + of_nat dx))
                              then c else g_framebuffer s a)\<rparr>"
  (is "?run n = s\<lparr>g_framebuffer := ?fb n\<rparr>")
proof (induction n)
  case 0
  show ?case by simp
next
  case (Suc n)
  have "?run (Suc n) = set_pixel (px + of_nat n) y c (?run n)" by simp
  also have "\<dots> = set_pixel (px + of_nat n) y c (s\<lparr>g_framebuffer := ?fb n\<rparr>)"
    by (simp only: Suc)
  also have "\<dots> = s\<lparr>g_framebuffer := ?fb (Suc n)\<rparr>"
  proof (cases "px + of_nat n < g_fb_width s \<and> y < g_fb_height s")
    case True
    then have "(?fb n)(y * g_fb_pitch_pixels s + (px + of_nat n) := c) = ?fb (Suc n)"
      by (auto simp: fun_eq_iff less_Suc_eq)
    with True show ?thesis by (simp add: set_pixel_def)
  next
    case False
    then have "?fb n = ?fb (Suc n)"
      by (auto simp: fun_eq_iff less_Suc_eq)
    with False show ?thesis by (auto simp: set_pixel_def)
  qed
  finally show ?case .
qed

lemma fold_rows:
  "fold (\<lambda>dy s. fold (\<lambda>dx. set_pixel (px + of_nat dx) (py + of_nat dy) c) [0..<m] s) [0..<n] s =
     s\<lparr>g_framebuffer := (\<lambda>a. if (\<exists>dy < n. \<exists>dx < m. px + of_nat dx < g_fb_width s \<and>
                                   py + of_nat dy < g_fb_height s \<and>
                                   a = (py + of_nat dy) * g_fb_pitch_pixels s + (px + of_nat dx))
                              then c else g_framebuffer s a)\<rparr>"
  (is "?run n = s\<lparr>g_framebuffer := ?fb n\<rparr>")
proof (induction n)
  case 0
  show ?case by simp
next
  case (Suc n)
  have "?run (Suc n) =
        fold (\<lambda>dx. set_pixel (px + of_nat dx) (py + of_nat n) c) [0..<m] (?run n)" by simp
  also have "\<dots> = fold (\<lambda>dx. set_pixel (px + of_nat dx) (py + of_nat n) c) [0..<m]
                      (s\<lparr>g_framebuffer := ?fb n\<rparr>)"
    by (simp only: Suc)
  also have "\<dots> = s\<lparr>g_framebuffer := ?fb (Suc n)\<rparr>"
  proof -
    have "(\<lambda>a. if (\<exists>dx < m. px + of_nat dx < g_fb_width s \<and> py + of_nat n < g_fb_height s \<and>
                    a = (py + of_nat n) * g_fb_pitch_pixels s + (px + of_nat dx))
               then c else ?fb n a) = ?fb (Suc n)"
      by (auto simp: fun_eq_iff less_Suc_eq)
    then show ?thesis by (simp add: fold_set_pixel_row cong: if_cong)
  qed
  finally show ?case .
qed

lemma fill_rect_eq:
  "fill_rect px py w h c st =
     st\<lparr>g_framebuffer := (\<lambda>a. if painted st px py w h a then c else g_framebuffer st a),
        fill_trace := fill_trace st @ [FillRect px py w h c]\<rparr>"
  by (simp add: fill_rect_def fold_rows painted_def cong: if_cong)


lemma only_draws_refl: "only_draws st st"
  by (simp add: only_draws_def)

lemma only_draws_trans: "only_draws a b \<Longrightarrow> only_draws b c \<Longrightarrow> only_draws a c"
  by (simp add: only_draws_def)

lemma painted_cong:
  "g_fb_width s = g_fb_width st \<Longrightarrow> g_fb_height s = g_fb_height st \<Longrightarrow>
   g_fb_pitch_pixels s = g_fb_pitch_pixels st \<Longrightarrow> painted s = painted st"
  by (simp add: painted_def fun_eq_iff)

lemma paints_only_draws: "only_draws st s \<Longrightarrow> paints s c a = paints st c a"
  by (cases c) (simp add: only_draws_def painted_def)

lemma paint_call_same_screen:
  assumes "g_fb_width s = g_fb_width st" "g_fb_height s = g_fb_height st"
    "g_fb_pitch_pixels s = g_fb_pitch_pixels st"
  shows "paint_call s c = paint_call st c"
  using assms by (cases c) (simp add: painted_def fun_eq_iff)

lemma paint_calls_same_screen:
  assumes "g_fb_width s = g_fb_width st" "g_fb_height s = g_fb_height st"
    "g_fb_pitch_pixels s = g_fb_pitch_pixels st"
  shows "paint_calls s cs = paint_calls st cs"
proof -
  have "paint_call s = paint_call st"
    by (rule ext) (rule paint_call_same_screen[OF assms])
  then have "fold (paint_call s) cs fb = fold (paint_call st) cs fb" for fb
    by (simp only:)
  then show ?thesis by (intro ext) (simp only: paint_calls_def)
qed

lemma paint_calls_append:
  "paint_calls st (cs @ ds) fb = paint_calls st ds (paint_calls st cs fb)"
  by (simp add: paint_calls_def)

lemma paint_calls_unpainted:
  "\<forall>c \<in> set cs. \<not> paints st c a \<Longrightarrow> paint_calls st cs fb a = fb a"
proof (induction cs arbitrary: fb)
  case Nil
  show ?case by (simp add: paint_calls_def)
next
  case (Cons c cs)
  from Cons.prems have "paint_call st c fb a = fb a" by (cases c) simp
  moreover from Cons have "paint_calls st cs (paint_call st c fb) a = paint_call st c fb a"
    by simp
  ultimately show ?case by (simp add: paint_calls_def)
qed

lemma draws_refl: "draws st [] st"
  by (simp add: draws_def only_draws_refl paint_calls_def)

lemma draws_fill_rect: "draws st [FillRect px py w h c] (fill_rect px py w h c st)"
  by (simp add: draws_def only_draws_def fill_rect_eq paint_calls_def)

lemma draws_append:
  assumes "draws a cs b" "draws b ds c"
  shows "draws a (cs @ ds) c"
proof -
  from assms have ab: "only_draws a b" and bc: "only_draws b c"
    by (simp_all add: draws_def)
  from ab have "paint_calls b ds = paint_calls a ds"
    by (intro paint_calls_same_screen) (simp_all add: only_draws_def)
  moreover from assms have "g_framebuffer b = paint_calls a cs (g_framebuffer a)"
    and "g_framebuffer c = paint_calls b ds (g_framebuffer b)"
    by (simp_all only: draws_def)
  ultimately have fb: "g_framebuffer c = paint_calls a (cs @ ds) (g_framebuffer a)"
    by (simp only: paint_calls_append)
  have un: "g_framebuffer c x = g_framebuffer a x"
    if "\<forall>e \<in> set (cs @ ds). \<not> paints a e x" for x
    unfolding fb using that by (rule paint_calls_unpainted)
  from assms have "fill_trace c = fill_trace a @ cs @ ds"
    by (simp only: draws_def append_assoc)
  with only_draws_trans[OF ab bc] fb un show ?thesis
    unfolding draws_def by blast
qed

lemma draw_window_frame_unfold:
  "draw_window_frame p bs bc f st =
     (let b = (if f then bs * FOCUSED_BORDER_MULTIPLIER else bs) in
      fill_rect (pos_x p + pos_width p - b) (pos_y p) b (pos_height p) bc
       (fill_rect (pos_x p) (pos_y p) b (pos_height p) bc
         (fill_rect (pos_x p) (pos_y p + pos_height p - b) (pos_width p) b bc
           (fill_rect (pos_x p) (pos_y p) (pos_width p) b bc
             (fill_rect (pos_x p + b) (pos_y p + b) (pos_width p - b * 2)
                          (pos_height p - b * 2) COLOR_WINDOW_BG st)))))"
  by (simp only: draw_window_frame_def Let_def)

lemma draws_window_frame:
  "draws st (frame_calls p (if f then bs * FOCUSED_BORDER_MULTIPLIER else bs) bc)
     (draw_window_frame p bs bc f st)"
proof -
  have "draws st ([FillRect (pos_x p + b) (pos_y p + b) (pos_width p - b * 2)
                     (pos_height p - b * 2) COLOR_WINDOW_BG] @
                  [FillRect (pos_x p) (pos_y p) (pos_width p) b bc] @
                  [FillRect (pos_x p) (pos_y p + pos_height p - b) (pos_width p) b bc] @
                  [FillRect (pos_x p) (pos_y p) b (pos_height p) bc] @
                  [FillRect (pos_x p + pos_width p - b) (pos_y p) b (pos_height p) bc])
     (fill_rect (pos_x p + pos_width p - b) (pos_y p) b (pos_height p) bc
       (fill_rect (pos_x p) (pos_y p) b (pos_height p) bc
         (fill_rect (pos_x p) (pos_y p + pos_height p - b) (pos_width p) b bc
           (fill_rect (pos_x p) (pos_y p) (pos_width p) b bc
             (fill_rect (pos_x p + b) (pos_y p + b) (pos_width p - b * 2)
                          (pos_height p - b * 2) COLOR_WINDOW_BG st)))))" for b
    by (rule draws_append draws_fill_rect)+
  then show ?thesis
    by (simp only: draw_window_frame_unfold Let_def frame_calls_def append.simps)
qed

lemma draws_only: "draws st cs st' \<Longrightarrow> only_draws st st'"
  by (simp add: draws_def)

lemma only_draws_fill_rect: "only_draws st (fill_rect px py w h c st)"
  by (rule draws_only[OF draws_fill_rect])

lemma only_draws_fold:
  assumes "\<And>i s. only_draws s (f i s)"
  shows "only_draws st (fold f xs st)"
proof (induction xs arbitrary: st)
  case Nil
  show ?case by (simp add: only_draws_refl)
next
  case (Cons x xs)
  show ?case using only_draws_trans[OF assms[of st x] Cons[of "f x st"]] by simp
qed

lemma only_draws_erase_previous: "only_draws st (erase_previous st)"
  unfolding erase_previous_def
  by (rule only_draws_fold) (simp add: Let_def only_draws_fill_rect)

lemma only_draws_indicator: "only_draws st (draw_empty_desktop_indicator st)"
  unfolding draw_empty_desktop_indicator_def Let_def
  by (rule only_draws_fold) (rule only_draws_fill_rect)

section \<open>Layout: closed forms\<close>

lemma nth_horizontal:
  "i < length ps \<Longrightarrow>
   calculate_horizontal_layout W ps count gap uh ! i =
     (if i < unat count
      then (ps ! i)\<lparr>pos_x := gap + of_nat i * ((W - gap * (count + 1)) div count + gap),
                     pos_y := TOP_BAR_HEIGHT + gap,
                     pos_width := (W - gap * (count + 1)) div count,
                     pos_height := uh - gap\<rparr>
      else ps ! i)"
  by (simp add: calculate_horizontal_layout_def Let_def nth_array_loop)

lemma nth_vertical:
  "i < length ps \<Longrightarrow>
   calculate_vertical_layout W ps count gap uh ! i =
     (if i < unat count
      then (ps ! i)\<lparr>pos_x := gap,
                     pos_y := TOP_BAR_HEIGHT + gap
                              + of_nat i * ((uh - gap * (count + 1)) div count + gap),
                     pos_width := W - gap * 2,
                     pos_height := (uh - gap * (count + 1)) div count\<rparr>
      else ps ! i)"
  by (simp add: calculate_vertical_layout_def Let_def nth_array_loop)

lemma nth_grid:
  "i < length ps \<Longrightarrow>
   calculate_grid_layout W ps count gap uh ! i =
     (if i < unat count
      then (ps ! i)\<lparr>pos_x := gap + (of_nat i mod 2) * ((W - gap * (2 + 1)) div 2 + gap),
                     pos_y := TOP_BAR_HEIGHT + gap
                              + (of_nat i div 2)
                                * ((uh - gap * ((count + 1) div 2 + 1)) div ((count + 1) div 2)
                                   + gap),
                     pos_width := (W - gap * (2 + 1)) div 2,
                     pos_height := (uh - gap * ((count + 1) div 2 + 1)) div ((count + 1) div 2)\<rparr>
      else ps ! i)"
  by (simp add: calculate_grid_layout_def Let_def nth_array_loop)

lemma nth_fullscreen:
  "i < length ps \<Longrightarrow>
   calculate_fullscreen_layout W ps count gap uh ! i =
     (if i < unat count
      then (ps ! i)\<lparr>pos_x := gap, pos_y := TOP_BAR_HEIGHT + gap,
                     pos_width := W - gap * 2, pos_height := uh - gap\<rparr>
      else ps ! i)"
  by (simp add: calculate_fullscreen_layout_def nth_array_loop)

lemma nth_master_stack_single:
  "i < length ps \<Longrightarrow>
   calculate_master_stack_layout W ps 1 gap uh ratio ! i =
     (if i = 0
      then (ps ! i)\<lparr>pos_x := gap, pos_y := TOP_BAR_HEIGHT + gap,
                     pos_width := W - gap * 2, pos_height := uh - gap\<rparr>
      else ps ! i)"
  by (auto simp: calculate_master_stack_layout_def nth_list_update)

lemma nth_master_stack:
  "i < length ps \<Longrightarrow> count \<noteq> 1 \<Longrightarrow>
   calculate_master_stack_layout W ps count gap uh ratio ! i =
     (if i = 0
      then (ps ! i)\<lparr>pos_x := gap, pos_y := TOP_BAR_HEIGHT + gap,
                     pos_width := W * ratio div 100 - gap * 2, pos_height := uh - gap\<rparr>
      else if i < unat count
      then (ps ! i)\<lparr>pos_x := W * ratio div 100 - gap * 2 + gap * 2,
                     pos_y := TOP_BAR_HEIGHT + gap
                              + (of_nat i - 1)
                                * ((uh - gap * (count - 1 + 1)) div (count - 1) + gap),
                     pos_width := W - (W * ratio div 100 - gap * 2) - gap * 3,
                     pos_height := (uh - gap * (count - 1 + 1)) div (count - 1)\<rparr>
      else ps ! i)"
  by (auto simp: calculate_master_stack_layout_def Let_def nth_array_loop nth_list_update)

lemma length_layouts:
  "length (calculate_horizontal_layout W ps count gap uh) = length ps"
  "length (calculate_vertical_layout W ps count gap uh) = length ps"
  "length (calculate_grid_layout W ps count gap uh) = length ps"
  "length (calculate_fullscreen_layout W ps count gap uh) = length ps"
  "length (calculate_master_stack_layout W ps count gap uh ratio) = length ps"
  by (simp_all add: calculate_horizontal_layout_def calculate_vertical_layout_def
      calculate_grid_layout_def calculate_fullscreen_layout_def
      calculate_master_stack_layout_def Let_def length_array_loop)

lemma compute_defined:
  assumes "unat count \<le> length ps"
    and "(count + 1) div 2 \<noteq> 0 \<or> ltype config \<noteq> LAYOUT_GRID"
  shows "\<exists>ps'. compute_window_positions W H ps count config = Some ps'"
  using assms
  by (auto simp: compute_window_positions_def Let_def split: layout_type_t.splits)

lemma grid_rows_positive:
  fixes count :: u32
  assumes "1 \<le> unat count" and "unat count \<le> 6"
  shows "(count + 1) div 2 \<noteq> 0"
proof -
  from assms have "unat (count + 1) = unat count + 1"
    by (simp add: unat_word_ariths)
  with assms have "unat ((count + 1) div 2) \<noteq> 0"
    by (simp add: unat_div)
  then show ?thesis by (simp add: unat_0_iff)
qed

lemma compute_defined_small:
  assumes "unat count \<le> length ps" and "unat count \<le> 6"
  shows "\<exists>ps'. compute_window_positions W H ps count config = Some ps'"
proof (cases "count = 0")
  case True
  with assms show ?thesis by (simp add: compute_window_positions_def Let_def)
next
  case False
  then have "1 \<le> unat count" by (simp add: unat_gt_0 Suc_le_eq)
  from grid_rows_positive[OF this assms(2)] assms(1) show ?thesis
    by (intro compute_defined) simp_all
qed

lemma compute_length:
  "compute_window_positions W H ps count config = Some ps' \<Longrightarrow> length ps' = length ps"
  by (auto simp: compute_window_positions_def Let_def length_layouts length_array_loop
      split: if_splits layout_type_t.splits)

lemma compute_untouched:
  assumes "compute_window_positions W H ps count config = Some ps'"
    and "unat count \<le> i" "i < length ps"
  shows "ps' ! i = ps ! i"
proof (cases "count = 1")
  case True
  with assms show ?thesis
    by (auto simp: compute_window_positions_def Let_def length_array_loop nth_array_loop
        nth_horizontal nth_vertical nth_grid nth_fullscreen nth_master_stack_single
        split: if_splits layout_type_t.splits)
next
  case False
  with assms show ?thesis
    by (auto simp: compute_window_positions_def Let_def length_array_loop nth_array_loop
        nth_horizontal nth_vertical nth_grid nth_fullscreen nth_master_stack unat_0_iff
        split: if_splits layout_type_t.splits)
qed

section \<open>The redraw\<close>

lemma draws_prev_positions_update:
  assumes "draws a cs b"
  shows "draws (a\<lparr>g_prev_positions := x\<rparr>) cs (b\<lparr>g_prev_positions := x\<rparr>)"
proof -
  have "paints (a\<lparr>g_prev_positions := x\<rparr>) c = paints a c" for c
    by (cases c) (simp add: painted_def fun_eq_iff)
  moreover have "paint_calls (a\<lparr>g_prev_positions := x\<rparr>) cs = paint_calls a cs"
    by (rule paint_calls_same_screen) simp_all
  moreover from assms have "g_framebuffer b = paint_calls a cs (g_framebuffer a)"
    by (simp only: draws_def)
  moreover from assms have "only_draws a b" "fill_trace b = fill_trace a @ cs"
    by (simp_all only: draws_def)
  ultimately show ?thesis
    by (simp add: draws_def only_draws_def paint_calls_unpainted)
qed

lemma draw_windows_fold:
  fixes ws ps st
  defines "body \<equiv> (\<lambda>i s. let p = (ps ! i)\<lparr>pos_pid := pid (windows ws ! i)\<rparr>;
                      s1 = draw_window_frame p (border_size (layout ws)) (border_color (layout ws))
                             (of_nat i = focused_window_index ws) s in
                  s1\<lparr>g_prev_positions := (g_prev_positions s1)[i := p]\<rparr>)"
  shows "draws st
           (concat (map (\<lambda>i. frame_calls (window_rect ws ps i) (window_border ws i)
                               (border_color (layout ws))) [0..<n]))
           ((fold body [0..<n] st)\<lparr>g_prev_positions := g_prev_positions st\<rparr>)
         \<and> g_prev_positions (fold body [0..<n] st) =
             array_loop 0 n (\<lambda>i _. window_rect ws ps i) (g_prev_positions st)"
proof (induction n)
  case 0
  show ?case by (simp add: draws_refl array_loop_empty)
next
  case (Suc n)
  define s where "s = fold body [0..<n] st"
  define p where "p = window_rect ws ps n"
  define s1 where "s1 = draw_window_frame p (border_size (layout ws)) (border_color (layout ws))
                             (of_nat n = focused_window_index ws) s"
  define cs where "cs = concat (map (\<lambda>i. frame_calls (window_rect ws ps i) (window_border ws i)
                               (border_color (layout ws))) [0..<n])"
  from Suc have ih1: "draws st cs (s\<lparr>g_prev_positions := g_prev_positions st\<rparr>)"
    and ih2: "g_prev_positions s = array_loop 0 n (\<lambda>i _. window_rect ws ps i) (g_prev_positions st)"
    by (simp_all add: s_def cs_def)
  have step: "fold body [0..<Suc n] st = s1\<lparr>g_prev_positions := (g_prev_positions s1)[n := p]\<rparr>"
    by (simp add: s_def s1_def p_def body_def window_rect_def Let_def)
  have d1: "draws s (frame_calls p (window_border ws n) (border_color (layout ws))) s1"
    unfolding s1_def window_border_def by (rule draws_window_frame)
  then have pp: "g_prev_positions s1 = g_prev_positions s"
    by (simp add: draws_def only_draws_def)
  have "draws st (cs @ frame_calls p (window_border ws n) (border_color (layout ws)))
          (s1\<lparr>g_prev_positions := g_prev_positions st\<rparr>)"
    by (rule draws_append[OF ih1 draws_prev_positions_update[OF d1]])
  moreover have "g_prev_positions (fold body [0..<Suc n] st) =
      array_loop 0 (Suc n) (\<lambda>i _. window_rect ws ps i) (g_prev_positions st)"
    unfolding step by (simp add: pp ih2 array_loop_Suc p_def)
  ultimately show ?case
    unfolding step by (simp add: cs_def p_def)
qed

lemma draw_windows_draws:
  "draws st (all_frame_calls ws ps)
     ((draw_windows ws ps st)\<lparr>g_prev_positions := g_prev_positions st\<rparr>)"
  using draw_windows_fold[of st ws ps "unat (window_count ws)"]
  by (simp add: draw_windows_def all_frame_calls_def)

lemma draw_windows_prev_positions:
  "g_prev_positions (draw_windows ws ps st) =
     array_loop 0 (unat (window_count ws)) (\<lambda>i _. window_rect ws ps i) (g_prev_positions st)"
  using draw_windows_fold[of st ws ps "unat (window_count ws)"]
  by (simp add: draw_windows_def)

lemma draw_windows_fields:
  "g_workspaces (draw_windows ws ps st) = g_workspaces st"
  "g_fb_width (draw_windows ws ps st) = g_fb_width st"
  "g_fb_height (draw_windows ws ps st) = g_fb_height st"
  "g_fb_pitch_pixels (draw_windows ws ps st) = g_fb_pitch_pixels st"
  "g_prev_window_count (draw_windows ws ps st) = g_prev_window_count st"
  "g_prev_layout (draw_windows ws ps st) = g_prev_layout st"
  "g_prev_focused (draw_windows ws ps st) = g_prev_focused st"
  using draw_windows_draws[of st ws ps]
  by (simp_all add: draws_def only_draws_def)

lemma local_positions_length: "length local_positions = MAX_WINDOWS_PER_WORKSPACE"
  by (simp add: local_positions_def)

lemma compute_local_defined:
  "unat count \<le> MAX_WINDOWS_PER_WORKSPACE \<Longrightarrow>
   \<exists>ps. compute_window_positions W H local_positions count config = Some ps"
  by (rule compute_defined_small)
    (simp_all add: local_positions_length MAX_WINDOWS_PER_WORKSPACE_def)

lemma redraw_nothing:
  assumes "window_count (active_workspace st) = g_prev_window_count st"
    and "ltype (layout (active_workspace st)) = g_prev_layout st"
    and "focused_window_index (active_workspace st) = g_prev_focused st"
  shows "redraw_incremental st = Some st"
  using assms by (simp add: redraw_incremental_def)

lemma redraw_focus:
  assumes "window_count (active_workspace st) = g_prev_window_count st"
    and "ltype (layout (active_workspace st)) = g_prev_layout st"
    and "focused_window_index (active_workspace st) \<noteq> g_prev_focused st"
    and "unat (window_count (active_workspace st)) \<le> MAX_WINDOWS_PER_WORKSPACE"
    and "g_prev_focused st < window_count (active_workspace st)"
    and "focused_window_index (active_workspace st) < window_count (active_workspace st)"
  shows "\<exists>ps. compute_window_positions (g_fb_width st) (g_fb_height st) local_positions
                (window_count (active_workspace st)) (layout (active_workspace st)) = Some ps \<and>
           redraw_incremental st =
             Some ((draw_window_frame (ps ! unat (focused_window_index (active_workspace st)))
                      (border_size (layout (active_workspace st)))
                      (border_color (layout (active_workspace st))) True
                      (draw_window_frame (ps ! unat (g_prev_focused st))
                         (border_size (layout (active_workspace st)))
                         (border_color (layout (active_workspace st))) False st))
                   \<lparr>g_prev_focused := focused_window_index (active_workspace st)\<rparr>)"
proof -
  from assms(4) obtain ps where
    "compute_window_positions (g_fb_width st) (g_fb_height st) local_positions
       (window_count (active_workspace st)) (layout (active_workspace st)) = Some ps"
    using compute_local_defined by blast
  with assms show ?thesis
    by (simp add: redraw_incremental_def Let_def)
qed

lemma redraw_structural_empty:
  assumes "window_count (active_workspace st) \<noteq> g_prev_window_count st
           \<or> ltype (layout (active_workspace st)) \<noteq> g_prev_layout st"
    and "unat (g_prev_window_count st) \<le> length (g_prev_positions st)"
    and "window_count (active_workspace st) = 0"
  shows "redraw_incremental st =
           Some (update_snapshot (active_workspace st)
                   (draw_empty_desktop_indicator (erase_previous st)))"
  using assms by (auto simp: redraw_incremental_def Let_def)

lemma redraw_structural_windows:
  assumes "window_count (active_workspace st) \<noteq> g_prev_window_count st
           \<or> ltype (layout (active_workspace st)) \<noteq> g_prev_layout st"
    and "unat (g_prev_window_count st) \<le> length (g_prev_positions st)"
    and "window_count (active_workspace st) \<noteq> 0"
    and "unat (window_count (active_workspace st)) \<le> MAX_WINDOWS_PER_WORKSPACE"
    and "unat (window_count (active_workspace st)) \<le> length (windows (active_workspace st))"
    and "unat (window_count (active_workspace st)) \<le> length (g_prev_positions st)"
  shows "\<exists>ps. compute_window_positions (g_fb_width st) (g_fb_height st) local_positions
                (window_count (active_workspace st)) (layout (active_workspace st)) = Some ps \<and>
           redraw_incremental st =
             Some (update_snapshot (active_workspace st)
                     (draw_windows (active_workspace st) ps (erase_previous st)))"
proof -
  from assms(4) obtain ps where
    "compute_window_positions (g_fb_width st) (g_fb_height st) local_positions
       (window_count (active_workspace st)) (layout (active_workspace st)) = Some ps"
    using compute_local_defined by blast
  with assms show ?thesis
    by (auto simp: redraw_incremental_def Let_def)
qed

lemma erase_previous_fields:
  "g_workspaces (erase_previous st) = g_workspaces st"
  "g_fb_width (erase_previous st) = g_fb_width st"
  "g_fb_height (erase_previous st) = g_fb_height st"
  "g_fb_pitch_pixels (erase_previous st) = g_fb_pitch_pixels st"
  "g_prev_positions (erase_previous st) = g_prev_positions st"
  "g_prev_window_count (erase_previous st) = g_prev_window_count st"
  "g_prev_layout (erase_previous st) = g_prev_layout st"
  "g_prev_focused (erase_previous st) = g_prev_focused st"
  using only_draws_erase_previous[of st] by (simp_all add: only_draws_def)

lemma indicator_fields:
  "g_workspaces (draw_empty_desktop_indicator st) = g_workspaces st"
  "g_fb_width (draw_empty_desktop_indicator st) = g_fb_width st"
  "g_fb_height (draw_empty_desktop_indicator st) = g_fb_height st"
  "g_fb_pitch_pixels (draw_empty_desktop_indicator st) = g_fb_pitch_pixels st"
  "g_prev_positions (draw_empty_desktop_indicator st) = g_prev_positions st"
  "g_prev_window_count (draw_empty_desktop_indicator st) = g_prev_window_count st"
  "g_prev_layout (draw_empty_desktop_indicator st) = g_prev_layout st"
  "g_prev_focused (draw_empty_desktop_indicator st) = g_prev_focused st"
  using only_draws_indicator[of st] by (simp_all add: only_draws_def)

lemma draw_window_frame_fields:
  "g_workspaces (draw_window_frame p bs bc f st) = g_workspaces st"
  "g_fb_width (draw_window_frame p bs bc f st) = g_fb_width st"
  "g_fb_height (draw_window_frame p bs bc f st) = g_fb_height st"
  "g_fb_pitch_pixels (draw_window_frame p bs bc f st) = g_fb_pitch_pixels st"
  "g_prev_positions (draw_window_frame p bs bc f st) = g_prev_positions st"
  "g_prev_window_count (draw_window_frame p bs bc f st) = g_prev_window_count st"
  "g_prev_layout (draw_window_frame p bs bc f st) = g_prev_layout st"
  "g_prev_focused (draw_window_frame p bs bc f st) = g_prev_focused st"
  using draws_only[OF draws_window_frame[of st p f bs bc]] by (simp_all add: only_draws_def)

lemma redraw_model:
  assumes "redraw_incremental st = Some st'"
  shows "g_workspaces st' = g_workspaces st"
    and "g_fb_width st' = g_fb_width st"
    and "g_fb_height st' = g_fb_height st"
    and "g_fb_pitch_pixels st' = g_fb_pitch_pixels st"
    and "length (g_prev_positions st') = length (g_prev_positions st)"
  using assms
  by (auto simp: redraw_incremental_def Let_def update_snapshot_def erase_previous_fields
      indicator_fields draw_window_frame_fields draw_windows_fields draw_windows_prev_positions
      length_array_loop split: if_splits option.splits)

lemma redraw_active:
  "redraw_incremental st = Some st' \<Longrightarrow> active_workspace st' = active_workspace st"
  by (simp add: active_workspace_def redraw_model(1))

lemma redraw_sync:
  assumes "redraw_incremental st = Some st'"
  shows "snapshot_in_sync st'"
proof -
  have a: "active_workspace st' = active_workspace st"
    using assms by (rule redraw_active)
  from assms show ?thesis
    unfolding snapshot_in_sync_def a
    by (auto simp: redraw_incremental_def Let_def update_snapshot_def erase_previous_fields
      indicator_fields draw_window_frame_fields draw_windows_fields
      split: if_splits option.splits)
qed

lemma redraw_defined:
  assumes "length (g_prev_positions st) = MAX_WINDOWS_PER_WORKSPACE"
    and "unat (g_prev_window_count st) \<le> MAX_WINDOWS_PER_WORKSPACE"
    and "unat (window_count (active_workspace st)) \<le> MAX_WINDOWS_PER_WORKSPACE"
    and "length (windows (active_workspace st)) = MAX_WINDOWS_PER_WORKSPACE"
    and "window_count (active_workspace st) \<noteq> g_prev_window_count st
         \<or> ltype (layout (active_workspace st)) \<noteq> g_prev_layout st
         \<or> focused_window_index (active_workspace st) = g_prev_focused st
         \<or> (g_prev_focused st < window_count (active_workspace st) \<and>
            focused_window_index (active_workspace st) < window_count (active_workspace st))"
  shows "\<exists>st'. redraw_incremental st = Some st'"
proof -
  obtain ps where "compute_window_positions (g_fb_width st) (g_fb_height st) local_positions
       (window_count (active_workspace st)) (layout (active_workspace st)) = Some ps"
    using compute_local_defined[OF assms(3)] by blast
  with assms show ?thesis
    by (auto simp: redraw_incremental_def Let_def)
qed

section \<open>Mutations of the active workspace\<close>

lemma active_set_active:
  "g_workspaces st \<noteq> [] \<Longrightarrow> active_workspace (set_active_workspace ws st) = ws"
  by (simp add: active_workspace_def set_active_workspace_def g_active_workspace_def)

lemma set_active_fields:
  "g_fb_width (set_active_workspace ws st) = g_fb_width st"
  "g_fb_height (set_active_workspace ws st) = g_fb_height st"
  "g_fb_pitch_pixels (set_active_workspace ws st) = g_fb_pitch_pixels st"
  "g_prev_positions (set_active_workspace ws st) = g_prev_positions st"
  "g_prev_window_count (set_active_workspace ws st) = g_prev_window_count st"
  "g_prev_layout (set_active_workspace ws st) = g_prev_layout st"
  "g_prev_focused (set_active_workspace ws st) = g_prev_focused st"
  "g_framebuffer (set_active_workspace ws st) = g_framebuffer st"
  "fill_trace (set_active_workspace ws st) = fill_trace st"
  "length (g_workspaces (set_active_workspace ws st)) = length (g_workspaces st)"
  by (simp_all add: set_active_workspace_def)

lemma shapes_nonempty: "array_shapes st \<Longrightarrow> g_workspaces st \<noteq> []"
  by (auto simp: array_shapes_def WORKSPACE_COUNT_def)

lemma after_mutation:
  assumes sh: "array_shapes st"
    and r: "redraw_incremental (set_active_workspace ws' st) = Some st'"
  shows "active_workspace st' = ws'"
    and "snapshot_in_sync st'"
    and "ws_shape ws' \<Longrightarrow> array_shapes st'"
    and "g_fb_width st' = g_fb_width st"
    and "g_fb_height st' = g_fb_height st"
    and "g_fb_pitch_pixels st' = g_fb_pitch_pixels st"
proof -
  show a: "active_workspace st' = ws'"
    using redraw_active[OF r] active_set_active[OF shapes_nonempty[OF sh]] by simp
  show "snapshot_in_sync st'" using r by (rule redraw_sync)
  show "array_shapes st'" if "ws_shape ws'"
    using that sh a redraw_model(1,5)[OF r]
    by (simp add: array_shapes_def set_active_fields)
  show "g_fb_width st' = g_fb_width st" "g_fb_height st' = g_fb_height st"
    "g_fb_pitch_pixels st' = g_fb_pitch_pixels st"
    using redraw_model(2,3,4)[OF r] by (simp_all add: set_active_fields)
qed

lemma mutation_defined:
  assumes sh: "array_shapes st"
    and sync: "snapshot_in_sync st"
    and inv: "ws_invariant (active_workspace st)"
    and c: "unat (window_count ws') \<le> MAX_WINDOWS_PER_WORKSPACE"
    and l: "ws_shape ws'"
    and path: "window_count ws' \<noteq> window_count (active_workspace st)
         \<or> ltype (layout ws') \<noteq> ltype (layout (active_workspace st))
         \<or> focused_window_index ws' = focused_window_index (active_workspace st)
         \<or> (focused_window_index (active_workspace st) < window_count ws' \<and>
            focused_window_index ws' < window_count ws')"
  shows "\<exists>st'. redraw_incremental (set_active_workspace ws' st) = Some st'"
proof (rule redraw_defined)
  note a = active_set_active[OF shapes_nonempty[OF sh], of ws']
  show "length (g_prev_positions (set_active_workspace ws' st)) = MAX_WINDOWS_PER_WORKSPACE"
    using sh by (simp add: set_active_fields array_shapes_def)
  show "unat (g_prev_window_count (set_active_workspace ws' st)) \<le> MAX_WINDOWS_PER_WORKSPACE"
    using sync inv by (simp add: set_active_fields snapshot_in_sync_def ws_invariant_def)
  show "unat (window_count (active_workspace (set_active_workspace ws' st)))
          \<le> MAX_WINDOWS_PER_WORKSPACE"
    using c by (simp add: a)
  show "length (windows (active_workspace (set_active_workspace ws' st)))
          = MAX_WINDOWS_PER_WORKSPACE"
    using l by (simp add: a ws_shape_def)
  show "window_count (active_workspace (set_active_workspace ws' st))
          \<noteq> g_prev_window_count (set_active_workspace ws' st)
        \<or> ltype (layout (active_workspace (set_active_workspace ws' st)))
          \<noteq> g_prev_layout (set_active_workspace ws' st)
        \<or> focused_window_index (active_workspace (set_active_workspace ws' st))
          = g_prev_focused (set_active_workspace ws' st)
        \<or> (g_prev_focused (set_active_workspace ws' st)
             < window_count (active_workspace (set_active_workspace ws' st)) \<and>
           focused_window_index (active_workspace (set_active_workspace ws' st))
             < window_count (active_workspace (set_active_workspace ws' st)))"
    using path sync by (simp add: a set_active_fields snapshot_in_sync_def)
qed

section \<open>Start-up\<close>

lemma clear_screen_static:
  "clear_screen static_state = static_state\<lparr>fill_trace := [FillRect 0 0 0 0 COLOR_BAR_BG]\<rparr>"
  by (simp add: clear_screen_def fill_rect_def static_state_def)

lemma initialize_active:
  assumes "length (g_workspaces st) = WORKSPACE_COUNT"
  shows "active_workspace (initialize_workspaces st) =
           (active_workspace st)\<lparr>window_count := 0,
              layout := DEFAULT_LAYOUTS LAYOUT_GRID,
              focused_window_index := 0,
              windows := array_loop 0 MAX_WINDOWS_PER_WORKSPACE
                (\<lambda>j w. w\<lparr>is_open := 0, title := (title w)[0 := NUL]\<rparr>)
                (windows (active_workspace st))\<rparr>"
  using assms
  by (simp add: active_workspace_def initialize_workspaces_def nth_array_loop
      g_active_workspace_def WORKSPACE_COUNT_def)

lemma start_before_redraw_fields:
  "window_count (active_workspace (start_before_redraw fb w h pitch0 pitch)) = 0"
  "layout (active_workspace (start_before_redraw fb w h pitch0 pitch)) = DEFAULT_LAYOUTS LAYOUT_GRID"
  "focused_window_index (active_workspace (start_before_redraw fb w h pitch0 pitch)) = 0"
  "length (windows (active_workspace (start_before_redraw fb w h pitch0 pitch)))
       = MAX_WINDOWS_PER_WORKSPACE"
  "length (g_workspaces (start_before_redraw fb w h pitch0 pitch)) = WORKSPACE_COUNT"
  "g_prev_window_count (start_before_redraw fb w h pitch0 pitch) = 0"
  "g_prev_layout (start_before_redraw fb w h pitch0 pitch) = LAYOUT_GRID"
  "g_prev_focused (start_before_redraw fb w h pitch0 pitch) = 0"
  "length (g_prev_positions (start_before_redraw fb w h pitch0 pitch)) = MAX_WINDOWS_PER_WORKSPACE"
  "g_fb_width (start_before_redraw fb w h pitch0 pitch) = w"
  "g_fb_height (start_before_redraw fb w h pitch0 pitch) = h"
  "g_fb_pitch_pixels (start_before_redraw fb w h pitch0 pitch) = pitch"
  "g_framebuffer (start_before_redraw fb w h pitch0 pitch) = fb"
  "fill_trace (start_before_redraw fb w h pitch0 pitch) = [FillRect 0 0 0 0 COLOR_BAR_BG]"
proof -
  define st4 where "st4 = (clear_screen static_state)
     \<lparr>g_framebuffer := fb, g_fb_width := w, g_fb_height := h, g_fb_pitch_pixels := pitch\<rparr>"
  have eq: "start_before_redraw fb w h pitch0 pitch =
     (initialize_workspaces st4)
       \<lparr>g_prev_window_count := 0, g_prev_layout := LAYOUT_GRID, g_prev_focused := 0\<rparr>"
    by (simp add: start_before_redraw_def st4_def Let_def)
  have len: "length (g_workspaces st4) = WORKSPACE_COUNT"
    by (simp add: st4_def clear_screen_static) (simp add: static_state_def)
  have act: "active_workspace (start_before_redraw fb w h pitch0 pitch) =
      active_workspace (initialize_workspaces st4)"
    by (simp add: eq active_workspace_def)
  show "window_count (active_workspace (start_before_redraw fb w h pitch0 pitch)) = 0"
    "layout (active_workspace (start_before_redraw fb w h pitch0 pitch)) = DEFAULT_LAYOUTS LAYOUT_GRID"
    "focused_window_index (active_workspace (start_before_redraw fb w h pitch0 pitch)) = 0"
    by (simp_all add: act initialize_active[OF len])
  show "length (windows (active_workspace (start_before_redraw fb w h pitch0 pitch)))
     = MAX_WINDOWS_PER_WORKSPACE"
    by (simp add: act initialize_active[OF len] length_array_loop)
      (simp add: st4_def clear_screen_static active_workspace_def,
        simp add: static_state_def g_active_workspace_def WORKSPACE_COUNT_def)
  show "length (g_workspaces (start_before_redraw fb w h pitch0 pitch)) = WORKSPACE_COUNT"
    using len by (simp add: eq initialize_workspaces_def length_array_loop)
  show "g_prev_window_count (start_before_redraw fb w h pitch0 pitch) = 0"
    "g_prev_layout (start_before_redraw fb w h pitch0 pitch) = LAYOUT_GRID"
    "g_prev_focused (start_before_redraw fb w h pitch0 pitch) = 0"
    by (simp_all add: eq)
  show "length (g_prev_positions (start_before_redraw fb w h pitch0 pitch)) = MAX_WINDOWS_PER_WORKSPACE"
    "g_fb_width (start_before_redraw fb w h pitch0 pitch) = w"
    "g_fb_height (start_before_redraw fb w h pitch0 pitch) = h"
    "g_fb_pitch_pixels (start_before_redraw fb w h pitch0 pitch) = pitch"
    "g_framebuffer (start_before_redraw fb w h pitch0 pitch) = fb"
    "fill_trace (start_before_redraw fb w h pitch0 pitch) = [FillRect 0 0 0 0 COLOR_BAR_BG]"
    by (simp_all add: eq initialize_workspaces_def st4_def clear_screen_static)
      (simp add: static_state_def)
qed

lemma start_titles:
  "w' \<in> set (windows (active_workspace (start_before_redraw fb w h pitch0 pitch)))
   \<Longrightarrow> length (title w') = 32"
proof -
  define st4 where "st4 = (clear_screen static_state)
     \<lparr>g_framebuffer := fb, g_fb_width := w, g_fb_height := h, g_fb_pitch_pixels := pitch\<rparr>"
  have eq: "start_before_redraw fb w h pitch0 pitch =
     (initialize_workspaces st4)
       \<lparr>g_prev_window_count := 0, g_prev_layout := LAYOUT_GRID, g_prev_focused := 0\<rparr>"
    by (simp add: start_before_redraw_def st4_def Let_def)
  have len: "length (g_workspaces st4) = WORKSPACE_COUNT"
    by (simp add: st4_def clear_screen_static) (simp add: static_state_def)
  have ws4: "windows (active_workspace st4) =
      replicate MAX_WINDOWS_PER_WORKSPACE \<lparr>title = replicate 32 NUL, pid = 0, is_open = 0\<rparr>"
    by (simp add: st4_def clear_screen_static active_workspace_def)
      (simp add: static_state_def g_active_workspace_def WORKSPACE_COUNT_def)
  have act: "windows (active_workspace (start_before_redraw fb w h pitch0 pitch)) =
      array_loop 0 MAX_WINDOWS_PER_WORKSPACE
        (\<lambda>j w. w\<lparr>is_open := 0, title := (title w)[0 := NUL]\<rparr>)
        (replicate MAX_WINDOWS_PER_WORKSPACE \<lparr>title = replicate 32 NUL, pid = 0, is_open = 0\<rparr>)"
    by (simp add: eq active_workspace_def)
      (simp add: initialize_active[OF len, unfolded active_workspace_def]
        ws4[unfolded active_workspace_def])
  assume "w' \<in> set (windows (active_workspace (start_before_redraw fb w h pitch0 pitch)))"
  then obtain i where "i < MAX_WINDOWS_PER_WORKSPACE"
    and "w' = array_loop 0 MAX_WINDOWS_PER_WORKSPACE
        (\<lambda>j w. w\<lparr>is_open := 0, title := (title w)[0 := NUL]\<rparr>)
        (replicate MAX_WINDOWS_PER_WORKSPACE \<lparr>title = replicate 32 NUL, pid = 0, is_open = 0\<rparr>) ! i"
    unfolding act by (auto simp: in_set_conv_nth length_array_loop)
  then show ?thesis by (simp add: nth_array_loop)
qed

lemma start_state_ok:
  "array_shapes (start_before_redraw fb w h pitch0 pitch)"
  "ws_invariant (active_workspace (start_before_redraw fb w h pitch0 pitch))"
  "snapshot_in_sync (start_before_redraw fb w h pitch0 pitch)"
  by (simp_all add: array_shapes_def ws_shape_def ws_invariant_def snapshot_in_sync_def
      start_before_redraw_fields DEFAULT_LAYOUTS_def start_titles)

section \<open>The four operations\<close>

lemma next_variant_index:
  "layout_of_index (Suc (layout_index t) mod LAYOUT_COUNT) = next_variant t"
  by (cases t) (simp_all add: layout_of_index_def LAYOUT_COUNT_def)

lemma next_variant_neq: "next_variant t \<noteq> t"
  by (cases t) simp_all


lemma cycle_layout_eq:
  "cycle_layout st =
     redraw_incremental (set_active_workspace
       ((active_workspace st)\<lparr>layout :=
           DEFAULT_LAYOUTS (next_variant (ltype (layout (active_workspace st))))\<rparr>) st)"
  by (simp add: cycle_layout_def Let_def next_variant_index)

lemma cycle_layout_step:
  assumes sh: "array_shapes st" and inv: "ws_invariant (active_workspace st)"
    and sync: "snapshot_in_sync st"
  shows "\<exists>st'. cycle_layout st = Some st' \<and>
           active_workspace st' = (active_workspace st)\<lparr>layout :=
             DEFAULT_LAYOUTS (next_variant (ltype (layout (active_workspace st))))\<rparr> \<and>
           array_shapes st' \<and> ws_invariant (active_workspace st') \<and> snapshot_in_sync st'"
proof -
  define ws' where "ws' = (active_workspace st)\<lparr>layout :=
             DEFAULT_LAYOUTS (next_variant (ltype (layout (active_workspace st))))\<rparr>"
  have shape': "ws_shape ws'"
    using sh by (simp add: ws'_def array_shapes_def ws_shape_def)
  have inv': "ws_invariant ws'"
    using inv by (simp add: ws'_def ws_invariant_def)
  have "\<exists>st'. redraw_incremental (set_active_workspace ws' st) = Some st'"
  proof (rule mutation_defined[OF sh sync inv])
    show "unat (window_count ws') \<le> MAX_WINDOWS_PER_WORKSPACE"
      using inv' by (simp add: ws_invariant_def)
    show "ws_shape ws'" by (rule shape')
    show "window_count ws' \<noteq> window_count (active_workspace st)
         \<or> ltype (layout ws') \<noteq> ltype (layout (active_workspace st))
         \<or> focused_window_index ws' = focused_window_index (active_workspace st)
         \<or> (focused_window_index (active_workspace st) < window_count ws' \<and>
            focused_window_index ws' < window_count ws')"
      by (simp add: ws'_def)
  qed
  then obtain st' where r: "redraw_incremental (set_active_workspace ws' st) = Some st'" by blast
  from after_mutation[OF sh r] shape' inv' have
    "active_workspace st' = ws'" "array_shapes st'" "ws_invariant (active_workspace st')"
    "snapshot_in_sync st'" by simp_all
  with r show ?thesis
    by (simp add: cycle_layout_eq ws'_def[symmetric])
qed


lemma string_copy_length:
  "string_copy dest src = Some t \<Longrightarrow> length t = length dest"
  by (auto simp: string_copy_def Let_def split: if_splits)

lemma string_copy_defined:
  "length (c_string src) < length dest \<Longrightarrow> \<exists>t. string_copy dest src = Some t"
  by (simp add: string_copy_def Let_def)

lemma unat_succ_small:
  fixes n :: u32
  shows "unat n < MAX_WINDOWS_PER_WORKSPACE \<Longrightarrow> unat (n + 1) = unat n + 1"
  by (simp add: unat_word_ariths MAX_WINDOWS_PER_WORKSPACE_def)

lemma add_window_cases:
  assumes sh: "array_shapes st" and inv: "ws_invariant (active_workspace st)"
    and r: "add_window_to_current_workspace new_title st = Some st'"
  shows "st' = st \<and> MAX_WINDOWS_PER_WORKSPACE \<le> unat (window_count (active_workspace st))
       \<or> (\<exists>t. unat (window_count (active_workspace st)) < MAX_WINDOWS_PER_WORKSPACE \<and>
            string_copy (title (windows (active_workspace st)
                                  ! unat (window_count (active_workspace st)))) new_title = Some t \<and>
            active_workspace st' =
              (active_workspace st)\<lparr>
                 windows := (windows (active_workspace st))
                    [unat (window_count (active_workspace st)) :=
                       (windows (active_workspace st) ! unat (window_count (active_workspace st)))
                         \<lparr>title := t, is_open := 1,
                          pid := window_count (active_workspace st)\<rparr>],
                 window_count := window_count (active_workspace st) + 1,
                 focused_window_index := window_count (active_workspace st)\<rparr> \<and>
            snapshot_in_sync st' \<and> array_shapes st')"
proof (cases "MAX_WINDOWS_PER_WORKSPACE \<le> unat (window_count (active_workspace st))")
  case True
  with r show ?thesis by (simp add: add_window_to_current_workspace_def)
next
  case False
  define ws where "ws = active_workspace st"
  define n where "n = window_count ws"
  define win where "win = windows ws ! unat n"
  from False have nf: "unat n < MAX_WINDOWS_PER_WORKSPACE" by (simp add: n_def ws_def)
  from r False obtain t where t: "string_copy (title win) new_title = Some t"
    and r': "redraw_incremental (set_active_workspace
        (ws\<lparr>windows := (windows ws)[unat n := win\<lparr>title := t, is_open := 1, pid := n\<rparr>],
            window_count := n + 1, focused_window_index := n\<rparr>) st) = Some st'"
    by (auto simp: add_window_to_current_workspace_def Let_def ws_def n_def win_def
        split: option.splits)
  from sh have len: "length (windows ws) = MAX_WINDOWS_PER_WORKSPACE"
    and titles: "\<forall>w \<in> set (windows ws). length (title w) = 32"
    by (simp_all add: array_shapes_def ws_shape_def ws_def)
  have "win \<in> set (windows ws)" using nf len by (simp add: win_def)
  with titles have "length (title win) = 32" by simp
  with t have lt: "length t = 32" by (simp add: string_copy_length)
  have shape': "ws_shape (ws\<lparr>windows := (windows ws)[unat n := win\<lparr>title := t, is_open := 1, pid := n\<rparr>],
            window_count := n + 1, focused_window_index := n\<rparr>)"
    using len titles lt
    by (auto simp: ws_shape_def dest!: set_update_subset_insert[THEN subsetD])
  from after_mutation[OF sh r'] shape' t nf show ?thesis
    by (auto simp: ws_def n_def win_def)
qed

lemma add_window_defined:
  assumes sh: "array_shapes st" and inv: "ws_invariant (active_workspace st)"
    and sync: "snapshot_in_sync st" and fits: "length (c_string new_title) < 32"
  shows "\<exists>st'. add_window_to_current_workspace new_title st = Some st'"
proof (cases "MAX_WINDOWS_PER_WORKSPACE \<le> unat (window_count (active_workspace st))")
  case True
  then show ?thesis by (simp add: add_window_to_current_workspace_def)
next
  case False
  define ws where "ws = active_workspace st"
  define n where "n = window_count ws"
  define win where "win = windows ws ! unat n"
  from False have nf: "unat n < MAX_WINDOWS_PER_WORKSPACE" by (simp add: n_def ws_def)
  from sh have len: "length (windows ws) = MAX_WINDOWS_PER_WORKSPACE"
    and titles: "\<forall>w \<in> set (windows ws). length (title w) = 32"
    by (simp_all add: array_shapes_def ws_shape_def ws_def)
  have "win \<in> set (windows ws)" using nf len by (simp add: win_def)
  with titles have l32: "length (title win) = 32" by simp
  with fits obtain t where t: "string_copy (title win) new_title = Some t"
    using string_copy_defined[of new_title "title win"] by auto
  with l32 have lt: "length t = 32" by (simp add: string_copy_length)
  define ws' where "ws' = ws\<lparr>windows := (windows ws)[unat n := win\<lparr>title := t, is_open := 1, pid := n\<rparr>],
            window_count := n + 1, focused_window_index := n\<rparr>"
  have shape': "ws_shape ws'"
    using len titles lt
    by (auto simp: ws'_def ws_shape_def dest!: set_update_subset_insert[THEN subsetD])
  have "\<exists>st'. redraw_incremental (set_active_workspace ws' st) = Some st'"
  proof (rule mutation_defined[OF sh sync inv _ shape'])
    show "unat (window_count ws') \<le> MAX_WINDOWS_PER_WORKSPACE"
      using nf by (simp add: ws'_def unat_succ_small)
    show "window_count ws' \<noteq> window_count (active_workspace st)
         \<or> ltype (layout ws') \<noteq> ltype (layout (active_workspace st))
         \<or> focused_window_index ws' = focused_window_index (active_workspace st)
         \<or> (focused_window_index (active_workspace st) < window_count ws' \<and>
            focused_window_index ws' < window_count ws')"
      by (simp add: ws'_def n_def ws_def)
  qed
  with False t show ?thesis
    by (simp add: add_window_to_current_workspace_def Let_def ws_def n_def win_def ws'_def)
qed

lemma add_window_invariant:
  assumes sh: "array_shapes st" and inv: "ws_invariant (active_workspace st)"
    and r: "add_window_to_current_workspace new_title st = Some st'"
  shows "ws_invariant (active_workspace st')"
  using add_window_cases[OF sh inv r]
proof (elim disjE exE conjE)
  assume "st' = st"
  with inv show ?thesis by simp
next
  fix t
  assume nf: "unat (window_count (active_workspace st)) < MAX_WINDOWS_PER_WORKSPACE"
    and a: "active_workspace st' =
              (active_workspace st)\<lparr>
                 windows := (windows (active_workspace st))
                    [unat (window_count (active_workspace st)) :=
                       (windows (active_workspace st) ! unat (window_count (active_workspace st)))
                         \<lparr>title := t, is_open := 1,
                          pid := window_count (active_workspace st)\<rparr>],
                 window_count := window_count (active_workspace st) + 1,
                 focused_window_index := window_count (active_workspace st)\<rparr>"
  from nf show ?thesis
    by (simp add: a ws_invariant_def word_less_nat_alt unat_succ_small)
qed


lemma length_shift_left: "length (shift_left a b xs) = length xs"
proof -
  have "length (fold (\<lambda>i ys. ys[i := ys ! (i + 1)]) is xs) = length xs" for "is"
    by (induction "is" arbitrary: xs) simp_all
  then show ?thesis by (simp add: shift_left_def)
qed

lemma shift_left_Suc:
  "a \<le> b \<Longrightarrow> shift_left a (Suc b) xs = (shift_left a b xs)[b := shift_left a b xs ! (b + 1)]"
  by (simp add: shift_left_def)

lemma shift_left_empty: "b \<le> a \<Longrightarrow> shift_left a b xs = xs"
  by (simp add: shift_left_def)

lemma nth_shift_left:
  "b < length xs \<Longrightarrow> i < length xs \<Longrightarrow>
   shift_left a b xs ! i = (if a \<le> i \<and> i < b then xs ! (i + 1) else xs ! i)"
proof (induction b arbitrary: i)
  case 0
  then show ?case by (simp add: shift_left_empty)
next
  case (Suc b)
  show ?case
  proof (cases "a \<le> b")
    case True
    show ?thesis
    proof (cases "i = b")
      case True
      with \<open>a \<le> b\<close> Suc.prems Suc.IH[of "Suc b"] show ?thesis
        by (simp add: shift_left_Suc length_shift_left)
    next
      case False
      with \<open>a \<le> b\<close> Suc.prems Suc.IH[of i] show ?thesis
        by (auto simp: shift_left_Suc length_shift_left)
    qed
  next
    case False
    then have "shift_left a (Suc b) xs = xs" by (simp add: shift_left_empty)
    with False show ?thesis by auto
  qed
qed

lemma set_shift_left: "b < length xs \<Longrightarrow> set (shift_left a b xs) \<subseteq> set xs"
proof
  fix x
  assume b: "b < length xs" and "x \<in> set (shift_left a b xs)"
  then obtain i where i: "i < length xs" and x: "x = shift_left a b xs ! i"
    by (auto simp: in_set_conv_nth length_shift_left)
  show "x \<in> set xs"
  proof (cases "a \<le> i \<and> i < b")
    case True
    with b i have "x = xs ! (i + 1)" and "i + 1 < length xs"
      by (simp_all add: x nth_shift_left)
    then show ?thesis by simp
  next
    case False
    with b i have "x = xs ! i" by (auto simp: x nth_shift_left)
    with i show ?thesis by simp
  qed
qed

lemma shift_left_removes:
  assumes "a < n" "n \<le> length xs"
  shows "take (n - 1) (shift_left a (n - 1) xs) = take a xs @ drop (a + 1) (take n xs)"
proof (rule nth_equalityI)
  show "length (take (n - 1) (shift_left a (n - 1) xs)) = length (take a xs @ drop (a + 1) (take n xs))"
    using assms by (simp add: length_shift_left)
next
  fix i
  assume "i < length (take (n - 1) (shift_left a (n - 1) xs))"
  with assms have i: "i < n - 1" by (simp add: length_shift_left)
  with assms show "take (n - 1) (shift_left a (n - 1) xs) ! i
                   = (take a xs @ drop (a + 1) (take n xs)) ! i"
    by (auto simp: nth_shift_left nth_append)
qed


lemma word_pred_less:
  fixes x :: u32
  shows "x \<noteq> 0 \<Longrightarrow> x - 1 < x"
  by (simp add: word_less_nat_alt unat_minus_one unat_gt_0)

lemma close_window_cases:
  assumes sh: "array_shapes st" and inv: "ws_invariant (active_workspace st)"
    and r: "close_current_window st = Some st'"
  shows "st' = st \<and> window_count (active_workspace st) = 0
       \<or> (window_count (active_workspace st) \<noteq> 0 \<and>
          active_workspace st' =
            (active_workspace st)\<lparr>
               windows := shift_left (unat (focused_window_index (active_workspace st)))
                            (unat (window_count (active_workspace st) - 1))
                            (windows (active_workspace st)),
               window_count := window_count (active_workspace st) - 1,
               focused_window_index :=
                 (if window_count (active_workspace st) - 1 = 0 then 0
                  else if window_count (active_workspace st) - 1
                          \<le> focused_window_index (active_workspace st)
                  then window_count (active_workspace st) - 1 - 1
                  else focused_window_index (active_workspace st))\<rparr> \<and>
          snapshot_in_sync st' \<and> array_shapes st')"
proof (cases "window_count (active_workspace st) = 0")
  case True
  with r show ?thesis by (simp add: close_current_window_def)
next
  case False
  define ws where "ws = active_workspace st"
  define n where "n = window_count ws"
  define f where "f = focused_window_index ws"
  define ws' where "ws' = ws\<lparr>windows := shift_left (unat f) (unat (n - 1)) (windows ws),
      window_count := n - 1,
      focused_window_index := (if n - 1 = 0 then 0 else if n - 1 \<le> f then n - 1 - 1 else f)\<rparr>"
  from False have n0: "n \<noteq> 0" by (simp add: n_def ws_def)
  from sh have len: "length (windows ws) = MAX_WINDOWS_PER_WORKSPACE"
    and titles: "\<forall>w \<in> set (windows ws). length (title w) = 32"
    by (simp_all add: array_shapes_def ws_shape_def ws_def)
  from r False have r': "redraw_incremental (set_active_workspace ws' st) = Some st'"
    by (auto simp: close_current_window_def Let_def ws_def n_def f_def ws'_def
        split: if_splits)
  from inv have "unat n \<le> MAX_WINDOWS_PER_WORKSPACE"
    by (simp add: ws_invariant_def n_def ws_def)
  with n0 len have "unat (n - 1) < length (windows ws)"
    by (simp add: unat_minus_one unat_gt_0 MAX_WINDOWS_PER_WORKSPACE_def)
  from set_shift_left[OF this, of "unat f"] len titles have shape': "ws_shape ws'"
    by (auto simp: ws'_def ws_shape_def length_shift_left)
  from after_mutation[OF sh r'] shape' False show ?thesis
    by (simp add: ws'_def ws_def n_def f_def)
qed

lemma close_window_invariant:
  assumes sh: "array_shapes st" and inv: "ws_invariant (active_workspace st)"
    and r: "close_current_window st = Some st'"
  shows "ws_invariant (active_workspace st')"
  using close_window_cases[OF sh inv r]
proof (elim disjE conjE)
  assume "st' = st"
  with inv show ?thesis by simp
next
  define n where "n = window_count (active_workspace st)"
  define f where "f = focused_window_index (active_workspace st)"
  assume n0: "window_count (active_workspace st) \<noteq> 0"
    and a: "active_workspace st' =
            (active_workspace st)\<lparr>
               windows := shift_left (unat (focused_window_index (active_workspace st)))
                            (unat (window_count (active_workspace st) - 1))
                            (windows (active_workspace st)),
               window_count := window_count (active_workspace st) - 1,
               focused_window_index :=
                 (if window_count (active_workspace st) - 1 = 0 then 0
                  else if window_count (active_workspace st) - 1
                          \<le> focused_window_index (active_workspace st)
                  then window_count (active_workspace st) - 1 - 1
                  else focused_window_index (active_workspace st))\<rparr>"
  from inv have le: "unat n \<le> MAX_WINDOWS_PER_WORKSPACE"
    by (simp add: ws_invariant_def n_def)
  from n0 have u: "unat (n - 1) = unat n - 1" by (simp add: unat_minus_one n_def)
  have "n - 1 - 1 < n - 1" if "n - 1 \<noteq> 0"
    using that by (rule word_pred_less)
  with le u show ?thesis
    by (auto simp: a ws_invariant_def n_def[symmetric] f_def[symmetric] word_neq_0_conv)
qed

lemma close_window_defined:
  assumes sh: "array_shapes st" and inv: "ws_invariant (active_workspace st)"
    and sync: "snapshot_in_sync st"
  shows "\<exists>st'. close_current_window st = Some st'"
proof (cases "window_count (active_workspace st) = 0")
  case True
  then show ?thesis by (simp add: close_current_window_def)
next
  case False
  define ws where "ws = active_workspace st"
  define n where "n = window_count ws"
  define f where "f = focused_window_index ws"
  define ws' where "ws' = ws\<lparr>windows := shift_left (unat f) (unat (n - 1)) (windows ws),
      window_count := n - 1,
      focused_window_index := (if n - 1 = 0 then 0 else if n - 1 \<le> f then n - 1 - 1 else f)\<rparr>"
  from False have n0: "n \<noteq> 0" by (simp add: n_def ws_def)
  from sh have len: "length (windows ws) = MAX_WINDOWS_PER_WORKSPACE"
    and titles: "\<forall>w \<in> set (windows ws). length (title w) = 32"
    by (simp_all add: array_shapes_def ws_shape_def ws_def)
  from inv have le: "unat n \<le> MAX_WINDOWS_PER_WORKSPACE"
    by (simp add: ws_invariant_def n_def ws_def)
  with n0 len have "unat (n - 1) < length (windows ws)"
    by (simp add: unat_minus_one unat_gt_0 MAX_WINDOWS_PER_WORKSPACE_def)
  from set_shift_left[OF this, of "unat f"] len titles have shape': "ws_shape ws'"
    by (auto simp: ws'_def ws_shape_def length_shift_left)
  have eq: "close_current_window st = redraw_incremental (set_active_workspace ws' st)"
    using False le len
    by (auto simp: close_current_window_def Let_def ws_def n_def f_def ws'_def)
  have "\<exists>st'. redraw_incremental (set_active_workspace ws' st) = Some st'"
  proof (rule mutation_defined[OF sh sync inv _ shape'])
    show "unat (window_count ws') \<le> MAX_WINDOWS_PER_WORKSPACE"
      using le n0 by (simp add: ws'_def unat_minus_one)
    show "window_count ws' \<noteq> window_count (active_workspace st)
         \<or> ltype (layout ws') \<noteq> ltype (layout (active_workspace st))
         \<or> focused_window_index ws' = focused_window_index (active_workspace st)
         \<or> (focused_window_index (active_workspace st) < window_count ws' \<and>
            focused_window_index ws' < window_count ws')"
      by (simp add: ws'_def n_def ws_def)
  qed
  with eq show ?thesis by simp
qed

lemma cycle_focus_cases:
  assumes sh: "array_shapes st" and inv: "ws_invariant (active_workspace st)"
    and r: "cycle_focus direction st = Some st'"
  shows "st' = st \<and> window_count (active_workspace st) = 0
       \<or> (window_count (active_workspace st) \<noteq> 0 \<and>
          active_workspace st' =
            (active_workspace st)\<lparr>focused_window_index :=
               (if 0 < direction
                then (focused_window_index (active_workspace st) + 1)
                       mod window_count (active_workspace st)
                else (focused_window_index (active_workspace st)
                        + window_count (active_workspace st) - 1)
                       mod window_count (active_workspace st))\<rparr> \<and>
          snapshot_in_sync st' \<and> array_shapes st')"
proof (cases "window_count (active_workspace st) = 0")
  case True
  with r show ?thesis by (simp add: cycle_focus_def)
next
  case False
  define ws' where "ws' = (active_workspace st)\<lparr>focused_window_index :=
               (if 0 < direction
                then (focused_window_index (active_workspace st) + 1)
                       mod window_count (active_workspace st)
                else (focused_window_index (active_workspace st)
                        + window_count (active_workspace st) - 1)
                       mod window_count (active_workspace st))\<rparr>"
  from r False have r': "redraw_incremental (set_active_workspace ws' st) = Some st'"
    by (auto simp: cycle_focus_def Let_def ws'_def split: if_splits)
  from sh have shape': "ws_shape ws'"
    by (simp add: ws'_def array_shapes_def ws_shape_def)
  from after_mutation[OF sh r'] shape' False show ?thesis
    by (simp add: ws'_def)
qed

lemma cycle_focus_invariant:
  assumes sh: "array_shapes st" and inv: "ws_invariant (active_workspace st)"
    and r: "cycle_focus direction st = Some st'"
  shows "ws_invariant (active_workspace st')"
  using cycle_focus_cases[OF sh inv r] inv
  by (auto simp: ws_invariant_def word_mod_less_divisor word_neq_0_conv)

lemma cycle_focus_defined:
  assumes sh: "array_shapes st" and inv: "ws_invariant (active_workspace st)"
    and sync: "snapshot_in_sync st"
  shows "\<exists>st'. cycle_focus direction st = Some st'"
proof (cases "window_count (active_workspace st) = 0")
  case True
  then show ?thesis by (simp add: cycle_focus_def)
next
  case False
  define ws' where "ws' = (active_workspace st)\<lparr>focused_window_index :=
               (if 0 < direction
                then (focused_window_index (active_workspace st) + 1)
                       mod window_count (active_workspace st)
                else (focused_window_index (active_workspace st)
                        + window_count (active_workspace st) - 1)
                       mod window_count (active_workspace st))\<rparr>"
  from sh have shape': "ws_shape ws'"
    by (simp add: ws'_def array_shapes_def ws_shape_def)
  have eq: "cycle_focus direction st = redraw_incremental (set_active_workspace ws' st)"
    using False by (auto simp: cycle_focus_def Let_def ws'_def)
  from False have pos: "0 < window_count (active_workspace st)"
    by (simp add: word_neq_0_conv)
  have "\<exists>st'. redraw_incremental (set_active_workspace ws' st) = Some st'"
  proof (rule mutation_defined[OF sh sync inv _ shape'])
    show "unat (window_count ws') \<le> MAX_WINDOWS_PER_WORKSPACE"
      using inv by (simp add: ws'_def ws_invariant_def)
    show "window_count ws' \<noteq> window_count (active_workspace st)
         \<or> ltype (layout ws') \<noteq> ltype (layout (active_workspace st))
         \<or> focused_window_index ws' = focused_window_index (active_workspace st)
         \<or> (focused_window_index (active_workspace st) < window_count ws' \<and>
            focused_window_index ws' < window_count ws')"
      using inv pos by (simp add: ws'_def ws_invariant_def word_mod_less_divisor)
  qed
  with eq show ?thesis by simp
qed

section \<open>Redraw paths\<close>

lemma erase_previous_nothing: "g_prev_window_count st = 0 \<Longrightarrow> erase_previous st = st"
  by (simp add: erase_previous_def)

lemma draws_reset_focus:
  assumes "draws st cs x"
  shows "draws st cs (x\<lparr>g_prev_focused := f\<rparr>\<lparr>g_prev_focused := g_prev_focused st\<rparr>)"
proof -
  from assms have "g_prev_focused x = g_prev_focused st"
    by (simp add: draws_def only_draws_def)
  then have "x\<lparr>g_prev_focused := f\<rparr>\<lparr>g_prev_focused := g_prev_focused st\<rparr> = x"
    by simp
  with assms show ?thesis by simp
qed

lemma length_frame_calls: "length (frame_calls p b c) = 5"
  by (simp add: frame_calls_def)

section \<open>Closed forms of the computed rectangles\<close>

lemma compute_SomeD:
  assumes "compute_window_positions W H ps count config = Some ps'"
  shows "unat count \<le> length ps"
    and "count = 0 \<Longrightarrow> ps' = ps"
    and "count \<noteq> 0 \<Longrightarrow> ps' =
      (let gap = gap_size config;
           usable_height = H - TOP_BAR_HEIGHT - gap;
           positions0 = array_loop 0 (unat count)
              (\<lambda>i p. p\<lparr>pos_x := 0, pos_y := TOP_BAR_HEIGHT,
                        pos_width := 0, pos_height := 0\<rparr>) ps in
       case ltype config of
            LAYOUT_HORIZONTAL \<Rightarrow>
              calculate_horizontal_layout W positions0 count gap usable_height
          | LAYOUT_VERTICAL \<Rightarrow>
              calculate_vertical_layout W positions0 count gap usable_height
          | LAYOUT_GRID \<Rightarrow>
              calculate_grid_layout W positions0 count gap usable_height
          | LAYOUT_FULLSCREEN \<Rightarrow>
              calculate_fullscreen_layout W positions0 count gap usable_height
          | LAYOUT_MASTER_STACK \<Rightarrow>
              calculate_master_stack_layout W positions0 count gap usable_height
                (master_ratio config))"
  using assms
  by (auto simp: compute_window_positions_def Let_def array_loop_empty
      split: if_splits layout_type_t.splits)

lemma compute_horizontal_nth:
  assumes "compute_window_positions W H ps count config = Some ps'"
    and "ltype config = LAYOUT_HORIZONTAL" and "i < unat count"
  shows "ps' ! i =
     \<lparr>pos_x = gap_size config
                + of_nat i * ((W - gap_size config * (count + 1)) div count + gap_size config),
      pos_y = TOP_BAR_HEIGHT + gap_size config,
      pos_width = (W - gap_size config * (count + 1)) div count,
      pos_height = H - TOP_BAR_HEIGHT - gap_size config - gap_size config,
      pos_pid = pos_pid (ps ! i)\<rparr>"
proof -
  from assms(3) have "count \<noteq> 0" by (auto simp: unat_gt_0)
  with compute_SomeD[OF assms(1)] assms(2,3) show ?thesis
    by (simp add: Let_def nth_horizontal nth_array_loop length_array_loop)
qed

lemma compute_vertical_nth:
  assumes "compute_window_positions W H ps count config = Some ps'"
    and "ltype config = LAYOUT_VERTICAL" and "i < unat count"
  shows "ps' ! i =
     \<lparr>pos_x = gap_size config,
      pos_y = TOP_BAR_HEIGHT + gap_size config
                + of_nat i * ((H - TOP_BAR_HEIGHT - gap_size config - gap_size config * (count + 1))
                                div count + gap_size config),
      pos_width = W - gap_size config * 2,
      pos_height = (H - TOP_BAR_HEIGHT - gap_size config - gap_size config * (count + 1)) div count,
      pos_pid = pos_pid (ps ! i)\<rparr>"
proof -
  from assms(3) have "count \<noteq> 0" by (auto simp: unat_gt_0)
  with compute_SomeD[OF assms(1)] assms(2,3) show ?thesis
    by (simp add: Let_def nth_vertical nth_array_loop length_array_loop)
qed

lemma compute_grid_nth:
  assumes "compute_window_positions W H ps count config = Some ps'"
    and "ltype config = LAYOUT_GRID" and "i < unat count"
  shows "ps' ! i =
     \<lparr>pos_x = gap_size config
                + (of_nat i mod 2) * ((W - gap_size config * (2 + 1)) div 2 + gap_size config),
      pos_y = TOP_BAR_HEIGHT + gap_size config
                + (of_nat i div 2)
                  * ((H - TOP_BAR_HEIGHT - gap_size config
                        - gap_size config * ((count + 1) div 2 + 1)) div ((count + 1) div 2)
                     + gap_size config),
      pos_width = (W - gap_size config * (2 + 1)) div 2,
      pos_height = (H - TOP_BAR_HEIGHT - gap_size config
                        - gap_size config * ((count + 1) div 2 + 1)) div ((count + 1) div 2),
      pos_pid = pos_pid (ps ! i)\<rparr>"
proof -
  from assms(3) have "count \<noteq> 0" by (auto simp: unat_gt_0)
  with compute_SomeD[OF assms(1)] assms(2,3) show ?thesis
    by (simp add: Let_def nth_grid nth_array_loop length_array_loop)
qed

lemma compute_fullscreen_nth:
  assumes "compute_window_positions W H ps count config = Some ps'"
    and "ltype config = LAYOUT_FULLSCREEN" and "i < unat count"
  shows "ps' ! i =
     \<lparr>pos_x = gap_size config,
      pos_y = TOP_BAR_HEIGHT + gap_size config,
      pos_width = W - gap_size config * 2,
      pos_height = H - TOP_BAR_HEIGHT - gap_size config - gap_size config,
      pos_pid = pos_pid (ps ! i)\<rparr>"
proof -
  from assms(3) have "count \<noteq> 0" by (auto simp: unat_gt_0)
  with compute_SomeD[OF assms(1)] assms(2,3) show ?thesis
    by (simp add: Let_def nth_fullscreen nth_array_loop length_array_loop)
qed

lemma compute_master_single_nth:
  assumes "compute_window_positions W H ps 1 config = Some ps'"
    and "ltype config = LAYOUT_MASTER_STACK"
  shows "ps' ! 0 =
     \<lparr>pos_x = gap_size config,
      pos_y = TOP_BAR_HEIGHT + gap_size config,
      pos_width = W - gap_size config * 2,
      pos_height = H - TOP_BAR_HEIGHT - gap_size config - gap_size config,
      pos_pid = pos_pid (ps ! 0)\<rparr>"
proof -
  from compute_SomeD(1)[OF assms(1)] have "ps \<noteq> []" by auto
  with compute_SomeD[OF assms(1)] assms(2) show ?thesis
    by (simp add: Let_def nth_master_stack_single nth_array_loop length_array_loop)
qed

lemma compute_master_nth:
  assumes "compute_window_positions W H ps count config = Some ps'"
    and "ltype config = LAYOUT_MASTER_STACK" and "count \<noteq> 1" and "i < unat count"
  shows "ps' ! i =
     (if i = 0 then
        \<lparr>pos_x = gap_size config,
         pos_y = TOP_BAR_HEIGHT + gap_size config,
         pos_width = W * master_ratio config div 100 - gap_size config * 2,
         pos_height = H - TOP_BAR_HEIGHT - gap_size config - gap_size config,
         pos_pid = pos_pid (ps ! i)\<rparr>
      else
        \<lparr>pos_x = W * master_ratio config div 100 - gap_size config * 2 + gap_size config * 2,
         pos_y = TOP_BAR_HEIGHT + gap_size config
                   + (of_nat i - 1)
                     * ((H - TOP_BAR_HEIGHT - gap_size config - gap_size config * (count - 1 + 1))
                          div (count - 1) + gap_size config),
         pos_width = W - (W * master_ratio config div 100 - gap_size config * 2)
                       - gap_size config * 3,
         pos_height = (H - TOP_BAR_HEIGHT - gap_size config - gap_size config * (count - 1 + 1))
                        div (count - 1),
         pos_pid = pos_pid (ps ! i)\<rparr>)"
proof -
  from assms(4) have "count \<noteq> 0" by (auto simp: unat_gt_0)
  moreover from compute_SomeD(1)[OF assms(1)] assms(4) have "ps \<noteq> []" by auto
  ultimately show ?thesis
    using compute_SomeD[OF assms(1)] assms(2,3,4)
    by (auto simp: Let_def nth_master_stack nth_array_loop length_array_loop)
qed

lemma unat_of_nat_small: "n < 2 ^ 32 \<Longrightarrow> unat (of_nat n :: u32) = n"
  by (simp add: unat_of_nat)

lemma of_nat_mod2: "i < 2 ^ 32 \<Longrightarrow> (of_nat i :: u32) mod 2 = of_nat (i mod 2)"
  by (simp add: word_arith_nat_mod unat_of_nat_small)

lemma of_nat_div2: "i < 2 ^ 32 \<Longrightarrow> (of_nat i :: u32) div 2 = of_nat (i div 2)"
  by (simp add: word_arith_nat_div unat_of_nat_small)

lemma grid_rows:
  fixes count :: u32
  assumes "unat count \<le> 6"
  shows "(count + 1) div 2 = of_nat ((unat count + 1) div 2)"
proof -
  from assms have "unat (count + 1) = unat count + 1"
    by (simp add: unat_word_ariths)
  then show ?thesis by (simp add: word_arith_nat_div)
qed

section \<open>Rectangles stay on the screen\<close>

lemma tile_nat:
  fixes L k j :: nat
  assumes "0 < k" "j < k" "5 * k + 4 \<le> L"
  shows "0 < (L - 4 * (k + 1)) div k"
    and "4 + j * ((L - 4 * (k + 1)) div k + 4) + (L - 4 * (k + 1)) div k + 4 \<le> L"
proof -
  define s where "s = (L - 4 * (k + 1)) div k"
  from assms show "0 < (L - 4 * (k + 1)) div k" by (simp add: div_greater_zero_iff)
  have "k * s \<le> L - 4 * (k + 1)" by (simp add: s_def)
  moreover have "Suc j * (s + 4) \<le> k * (s + 4)"
    using assms by (intro mult_le_mono1) simp
  ultimately have "4 + j * (s + 4) + s + 4 \<le> L"
    using assms by (simp add: algebra_simps)
  then show "4 + j * ((L - 4 * (k + 1)) div k + 4) + (L - 4 * (k + 1)) div k + 4 \<le> L"
    by (simp add: s_def)
qed

lemma tile_word:
  fixes L k j g :: u32
  assumes g: "unat g = 4" and k: "0 < unat k" "unat k \<le> 6" and j: "unat j < unat k"
    and L: "5 * unat k + 4 \<le> unat L"
  shows "0 < unat ((L - g * (k + 1)) div k)"
    and "unat (g + j * ((L - g * (k + 1)) div k + g))
           + unat ((L - g * (k + 1)) div k) + 4 \<le> unat L"
proof -
  define s where "s = (L - g * (k + 1)) div k"
  define n where "n = (unat L - 4 * (unat k + 1)) div unat k"
  define gk where "gk = g * (k + 1)"
  have k1: "unat (k + 1) = unat k + 1"
    using k by (simp add: unat_word_ariths)
  have "unat g * unat (k + 1) < 2 ^ LENGTH(32)"
    using k by (simp add: g k1)
  then have gk: "unat gk = 4 * (unat k + 1)"
    unfolding gk_def by (simp only: unat_mult_lem[THEN iffD1] g k1)
  then have "gk \<le> L"
    using k L by (simp add: word_le_nat_alt)
  then have "unat (L - gk) = unat L - 4 * (unat k + 1)"
    by (simp add: unat_sub gk)
  then have s: "unat s = n"
    by (simp add: s_def n_def unat_div gk_def)
  have pos: "0 < n" unfolding n_def using k(1) j L by (intro tile_nat(1)) simp_all
  have bound: "4 + unat j * (n + 4) + n + 4 \<le> unat L"
    unfolding n_def using tile_nat(2)[OF k(1) j L] .
  have L32: "unat L < 2 ^ 32" using unsigned_less[of L] by simp
  have "unat s + unat g < 2 ^ LENGTH(32)" using bound L32 by (simp add: s g)
  then have s4: "unat (s + g) = n + 4"
    by (simp only: unat_add_lem[THEN iffD1] s g)
  have "unat j * unat (s + g) < 2 ^ LENGTH(32)" using bound L32 by (simp add: s4)
  then have js: "unat (j * (s + g)) = unat j * (n + 4)"
    by (simp only: unat_mult_lem[THEN iffD1] s4)
  have "unat g + unat (j * (s + g)) < 2 ^ LENGTH(32)" using bound L32 by (simp add: js g)
  then have off: "unat (g + j * (s + g)) = 4 + unat j * (n + 4)"
    by (simp only: unat_add_lem[THEN iffD1] js g)
  from pos show "0 < unat ((L - g * (k + 1)) div k)"
    unfolding s_def[symmetric] by (simp add: s)
  from bound show "unat (g + j * ((L - g * (k + 1)) div k + g))
           + unat ((L - g * (k + 1)) div k) + 4 \<le> unat L"
    unfolding s_def[symmetric] by (simp add: off s)
qed

text \<open>The vertical measures shared by the layouts, for a gap of 4 and a screen at least
  62 pixels high.\<close>

lemma usable_height_nat:
  fixes H g :: u32
  assumes g: "unat g = 4" and H: "62 \<le> unat H"
  shows "unat (H - TOP_BAR_HEIGHT - g) = unat H - 28"
    and "unat (H - TOP_BAR_HEIGHT - g - g) = unat H - 32"
    and "unat (TOP_BAR_HEIGHT + g) = 28"
proof -
  have t: "unat TOP_BAR_HEIGHT = 24" by (simp add: TOP_BAR_HEIGHT_def)
  have "TOP_BAR_HEIGHT \<le> H" using H by (simp add: word_le_nat_alt t)
  then have a: "unat (H - TOP_BAR_HEIGHT) = unat H - 24" by (simp add: unat_sub t)
  then have "g \<le> H - TOP_BAR_HEIGHT" using H by (simp add: word_le_nat_alt g)
  then show b: "unat (H - TOP_BAR_HEIGHT - g) = unat H - 28"
    using H by (simp add: unat_sub a g)
  then have le: "g \<le> H - TOP_BAR_HEIGHT - g" using H by (simp add: word_le_nat_alt g)
  show "unat (H - TOP_BAR_HEIGHT - g - g) = unat H - 32"
    unfolding unat_sub[OF le] b g by simp
  have "unat TOP_BAR_HEIGHT + unat g < 2 ^ LENGTH(32)" by (simp add: t g)
  then show "unat (TOP_BAR_HEIGHT + g) = 28"
    by (simp only: unat_add_lem[THEN iffD1] t g)
qed

lemma full_width_nat:
  fixes W g :: u32
  assumes g: "unat g = 4" and W: "34 \<le> unat W"
  shows "unat (W - g * 2) = unat W - 8"
proof -
  have "unat g * unat (2 :: u32) < 2 ^ LENGTH(32)" by (simp add: g)
  then have g2: "unat (g * 2) = 8" by (simp only: unat_mult_lem[THEN iffD1] g; simp)
  then have "g * 2 \<le> W" using W by (simp add: word_le_nat_alt)
  then show ?thesis by (simp add: unat_sub g2)
qed

lemma tile_word_below_bar:
  fixes H k j g :: u32
  assumes g: "unat g = 4" and H: "62 \<le> unat H"
    and k: "0 < unat k" "unat k \<le> 6" and j: "unat j < unat k"
  shows "0 < unat ((H - TOP_BAR_HEIGHT - g - g * (k + 1)) div k)"
    and "unat TOP_BAR_HEIGHT
           \<le> unat (TOP_BAR_HEIGHT + g + j * ((H - TOP_BAR_HEIGHT - g - g * (k + 1)) div k + g))"
    and "unat (TOP_BAR_HEIGHT + g + j * ((H - TOP_BAR_HEIGHT - g - g * (k + 1)) div k + g))
           + unat ((H - TOP_BAR_HEIGHT - g - g * (k + 1)) div k) \<le> unat H"
proof -
  define L where "L = H - TOP_BAR_HEIGHT - g"
  define s where "s = (L - g * (k + 1)) div k"
  have uL: "unat L = unat H - 28" unfolding L_def by (rule usable_height_nat(1)[OF g H])
  with H k have L: "5 * unat k + 4 \<le> unat L" by simp
  have t: "unat TOP_BAR_HEIGHT = 24" by (simp add: TOP_BAR_HEIGHT_def)
  note tw = tile_word[OF g k j L, folded s_def]
  have H32: "unat H < 2 ^ 32" using unsigned_less[of H] by simp
  have "unat TOP_BAR_HEIGHT + unat (g + j * (s + g)) < 2 ^ LENGTH(32)"
    using tw(2) uL H H32 by (simp add: t)
  then have y: "unat (TOP_BAR_HEIGHT + (g + j * (s + g))) = 24 + unat (g + j * (s + g))"
    by (simp only: unat_add_lem[THEN iffD1] t)
  have assoc: "TOP_BAR_HEIGHT + g + j * (s + g) = TOP_BAR_HEIGHT + (g + j * (s + g))"
    by (simp only: add.assoc)
  from tw(1) show "0 < unat ((H - TOP_BAR_HEIGHT - g - g * (k + 1)) div k)"
    unfolding s_def L_def .
  show "unat TOP_BAR_HEIGHT
           \<le> unat (TOP_BAR_HEIGHT + g + j * ((H - TOP_BAR_HEIGHT - g - g * (k + 1)) div k + g))"
    unfolding L_def[symmetric] s_def[symmetric] assoc y t by simp
  show "unat (TOP_BAR_HEIGHT + g + j * ((H - TOP_BAR_HEIGHT - g - g * (k + 1)) div k + g))
           + unat ((H - TOP_BAR_HEIGHT - g - g * (k + 1)) div k) \<le> unat H"
    unfolding L_def[symmetric] s_def[symmetric] assoc y
    using tw(2) uL H by simp
qed


lemma rect_in_screenI:
  assumes "0 < unat w" and "0 < unat h" and "unat x + unat w \<le> unat W"
    and "unat TOP_BAR_HEIGHT \<le> unat y" and "unat y + unat h \<le> unat H"
  shows "rect_in_screen W H \<lparr>pos_x = x, pos_y = y, pos_width = w, pos_height = h, pos_pid = p\<rparr>"
  using assms by (simp add: rect_in_screen_def word_less_nat_alt)

lemma index_word:
  fixes count :: u32
  assumes "i < unat count" and "unat count \<le> 6"
  shows "unat (of_nat i :: u32) = i"
  using assms by (simp add: unat_of_nat)

lemma horizontal_on_screen:
  fixes W H g count :: u32
  assumes g: "unat g = 4" and W: "34 \<le> unat W" and H: "62 \<le> unat H"
    and c: "unat count \<le> 6" and i: "i < unat count"
  shows "rect_in_screen W H
     \<lparr>pos_x = g + of_nat i * ((W - g * (count + 1)) div count + g),
      pos_y = TOP_BAR_HEIGHT + g,
      pos_width = (W - g * (count + 1)) div count,
      pos_height = H - TOP_BAR_HEIGHT - g - g,
      pos_pid = p\<rparr>"
proof (rule rect_in_screenI)
  from i have k: "0 < unat count" by simp
  have j: "unat (of_nat i :: u32) < unat count" using i c by (simp add: index_word)
  have L: "5 * unat count + 4 \<le> unat W" using W c by simp
  note tw = tile_word[OF g k c j L]
  note uh = usable_height_nat[OF g H]
  show "0 < unat ((W - g * (count + 1)) div count)" by (rule tw(1))
  show "0 < unat (H - TOP_BAR_HEIGHT - g - g)" using H uh by linarith
  show "unat (g + of_nat i * ((W - g * (count + 1)) div count + g))
          + unat ((W - g * (count + 1)) div count) \<le> unat W"
    using tw(2) by linarith
  show "unat TOP_BAR_HEIGHT \<le> unat (TOP_BAR_HEIGHT + g)"
    using uh(3) by (simp add: TOP_BAR_HEIGHT_def)
  show "unat (TOP_BAR_HEIGHT + g) + unat (H - TOP_BAR_HEIGHT - g - g) \<le> unat H"
    using H uh by linarith
qed

lemma vertical_on_screen:
  fixes W H g count :: u32
  assumes g: "unat g = 4" and W: "34 \<le> unat W" and H: "62 \<le> unat H"
    and c: "unat count \<le> 6" and i: "i < unat count"
  shows "rect_in_screen W H
     \<lparr>pos_x = g,
      pos_y = TOP_BAR_HEIGHT + g
                + of_nat i * ((H - TOP_BAR_HEIGHT - g - g * (count + 1)) div count + g),
      pos_width = W - g * 2,
      pos_height = (H - TOP_BAR_HEIGHT - g - g * (count + 1)) div count,
      pos_pid = p\<rparr>"
proof (rule rect_in_screenI)
  from i have k: "0 < unat count" by simp
  have j: "unat (of_nat i :: u32) < unat count" using i c by (simp add: index_word)
  note tb = tile_word_below_bar[OF g H k c j]
  note fw = full_width_nat[OF g W]
  show "0 < unat (W - g * 2)" using W fw by linarith
  show "0 < unat ((H - TOP_BAR_HEIGHT - g - g * (count + 1)) div count)" by (rule tb(1))
  show "unat g + unat (W - g * 2) \<le> unat W" using W fw g by linarith
  show "unat TOP_BAR_HEIGHT
          \<le> unat (TOP_BAR_HEIGHT + g
                + of_nat i * ((H - TOP_BAR_HEIGHT - g - g * (count + 1)) div count + g))"
    by (rule tb(2))
  show "unat (TOP_BAR_HEIGHT + g
                + of_nat i * ((H - TOP_BAR_HEIGHT - g - g * (count + 1)) div count + g))
          + unat ((H - TOP_BAR_HEIGHT - g - g * (count + 1)) div count) \<le> unat H"
    by (rule tb(3))
qed

lemma fullscreen_on_screen:
  fixes W H g :: u32
  assumes g: "unat g = 4" and W: "34 \<le> unat W" and H: "62 \<le> unat H"
  shows "rect_in_screen W H
     \<lparr>pos_x = g, pos_y = TOP_BAR_HEIGHT + g, pos_width = W - g * 2,
      pos_height = H - TOP_BAR_HEIGHT - g - g, pos_pid = p\<rparr>"
proof (rule rect_in_screenI)
  note uh = usable_height_nat[OF g H]
  note fw = full_width_nat[OF g W]
  show "0 < unat (W - g * 2)" using W fw by linarith
  show "0 < unat (H - TOP_BAR_HEIGHT - g - g)" using H uh by linarith
  show "unat g + unat (W - g * 2) \<le> unat W" using W fw g by linarith
  show "unat TOP_BAR_HEIGHT \<le> unat (TOP_BAR_HEIGHT + g)"
    using uh(3) by (simp add: TOP_BAR_HEIGHT_def)
  show "unat (TOP_BAR_HEIGHT + g) + unat (H - TOP_BAR_HEIGHT - g - g) \<le> unat H"
    using H uh by linarith
qed

lemma grid_on_screen:
  fixes W H g count :: u32
  assumes g: "unat g = 4" and W: "34 \<le> unat W" and H: "62 \<le> unat H"
    and c: "unat count \<le> 6" and i: "i < unat count"
  shows "rect_in_screen W H
     \<lparr>pos_x = g + (of_nat i mod 2) * ((W - g * (2 + 1)) div 2 + g),
      pos_y = TOP_BAR_HEIGHT + g
                + (of_nat i div 2)
                  * ((H - TOP_BAR_HEIGHT - g - g * ((count + 1) div 2 + 1)) div ((count + 1) div 2)
                     + g),
      pos_width = (W - g * (2 + 1)) div 2,
      pos_height = (H - TOP_BAR_HEIGHT - g - g * ((count + 1) div 2 + 1)) div ((count + 1) div 2),
      pos_pid = p\<rparr>"
proof (rule rect_in_screenI)
  have ui: "unat (of_nat i :: u32) = i" using i c by (rule index_word)
  have c1: "unat (count + 1) = unat count + 1" using c by (simp add: unat_word_ariths)
  have rows: "unat ((count + 1) div 2) = (unat count + 1) div 2"
    by (simp add: unat_div c1)
  have col: "unat ((of_nat i :: u32) mod 2) = i mod 2" by (simp add: unat_mod ui)
  have row: "unat ((of_nat i :: u32) div 2) = i div 2" by (simp add: unat_div ui)
  have k2: "0 < unat (2 :: u32)" "unat (2 :: u32) \<le> 6" by simp_all
  have j2: "unat ((of_nat i :: u32) mod 2) < unat (2 :: u32)" by (simp add: col)
  have L2: "5 * unat (2 :: u32) + 4 \<le> unat W" using W by simp
  note tw = tile_word[OF g k2 j2 L2]
  have kr: "0 < unat ((count + 1) div 2)" "unat ((count + 1) div 2) \<le> 6"
    using i c by (simp_all add: rows)
  have jr: "unat ((of_nat i :: u32) div 2) < unat ((count + 1) div 2)"
    using i unfolding rows row by arith
  note tb = tile_word_below_bar[OF g H kr jr]
  show "0 < unat ((W - g * (2 + 1)) div 2)" by (rule tw(1))
  show "0 < unat ((H - TOP_BAR_HEIGHT - g - g * ((count + 1) div 2 + 1)) div ((count + 1) div 2))"
    by (rule tb(1))
  show "unat (g + (of_nat i mod 2) * ((W - g * (2 + 1)) div 2 + g))
          + unat ((W - g * (2 + 1)) div 2) \<le> unat W"
    using tw(2) by linarith
  show "unat TOP_BAR_HEIGHT
          \<le> unat (TOP_BAR_HEIGHT + g + (of_nat i div 2)
                  * ((H - TOP_BAR_HEIGHT - g - g * ((count + 1) div 2 + 1)) div ((count + 1) div 2)
                     + g))"
    by (rule tb(2))
  show "unat (TOP_BAR_HEIGHT + g + (of_nat i div 2)
                  * ((H - TOP_BAR_HEIGHT - g - g * ((count + 1) div 2 + 1)) div ((count + 1) div 2)
                     + g))
          + unat ((H - TOP_BAR_HEIGHT - g - g * ((count + 1) div 2 + 1)) div ((count + 1) div 2))
          \<le> unat H"
    by (rule tb(3))
qed


lemma master_width_nat:
  fixes W g r :: u32
  assumes g: "unat g = 4" and r: "unat r = 60"
    and W: "34 \<le> unat W" "unat W \<le> 71582788"
  shows "unat (W * r div 100 - g * 2) = unat W * 60 div 100 - 8"
    and "unat (W * r div 100 - g * 2 + g * 2) = unat W * 60 div 100"
    and "unat (W - (W * r div 100 - g * 2) - g * 3) = unat W - unat W * 60 div 100 - 4"
proof -
  define m where "m = W * r div 100"
  have "unat W * unat r < 2 ^ LENGTH(32)" using W by (simp add: r)
  then have "unat (W * r) = unat W * 60" by (simp only: unat_mult_lem[THEN iffD1] r)
  then have m: "unat m = unat W * 60 div 100" by (simp add: m_def unat_div)
  have "unat g * unat (2 :: u32) < 2 ^ LENGTH(32)" by (simp add: g)
  then have g2: "unat (g * 2) = 8" by (simp only: unat_mult_lem[THEN iffD1] g; simp)
  have "unat g * unat (3 :: u32) < 2 ^ LENGTH(32)" by (simp add: g)
  then have g3: "unat (g * 3) = 12" by (simp only: unat_mult_lem[THEN iffD1] g; simp)
  have m20: "20 \<le> unat m" using W unfolding m by arith
  have mW: "unat m + 4 \<le> unat W" using W unfolding m by arith
  have "g * 2 \<le> m" using m20 by (simp add: word_le_nat_alt g2)
  then have mw: "unat (m - g * 2) = unat m - 8" by (simp only: unat_sub g2)
  have W32: "unat W < 2 ^ 32" using unsigned_less[of W] by simp
  have "unat (m - g * 2) + unat (g * 2) < 2 ^ LENGTH(32)"
    using m20 mW W32 by (simp add: mw g2)
  then have bk: "unat (m - g * 2 + g * 2) = unat m"
    using m20 by (simp only: unat_add_lem[THEN iffD1] mw g2; simp)
  have "m - g * 2 \<le> W" using m20 mW by (simp add: word_le_nat_alt mw)
  then have rest: "unat (W - (m - g * 2)) = unat W - (unat m - 8)"
    by (simp only: unat_sub mw)
  have "g * 3 \<le> W - (m - g * 2)" using m20 mW by (simp add: word_le_nat_alt rest g3)
  then have sw: "unat (W - (m - g * 2) - g * 3) = unat W - (unat m - 8) - 12"
    by (simp only: unat_sub rest g3)
  show "unat (W * r div 100 - g * 2) = unat W * 60 div 100 - 8"
    unfolding m_def[symmetric] mw m ..
  show "unat (W * r div 100 - g * 2 + g * 2) = unat W * 60 div 100"
    unfolding m_def[symmetric] bk m ..
  show "unat (W - (W * r div 100 - g * 2) - g * 3) = unat W - unat W * 60 div 100 - 4"
    unfolding m_def[symmetric] sw using m20 mW unfolding m by arith
qed

lemma master_on_screen:
  fixes W H g r :: u32
  assumes g: "unat g = 4" and r: "unat r = 60"
    and W: "34 \<le> unat W" "unat W \<le> 71582788" and H: "62 \<le> unat H"
  shows "rect_in_screen W H
     \<lparr>pos_x = g, pos_y = TOP_BAR_HEIGHT + g,
      pos_width = W * r div 100 - g * 2,
      pos_height = H - TOP_BAR_HEIGHT - g - g, pos_pid = p\<rparr>"
proof (rule rect_in_screenI)
  note uh = usable_height_nat[OF g H]
  note mw = master_width_nat[OF g r W]
  show "0 < unat (W * r div 100 - g * 2)" using W unfolding mw by arith
  show "0 < unat (H - TOP_BAR_HEIGHT - g - g)" using H uh by linarith
  show "unat g + unat (W * r div 100 - g * 2) \<le> unat W" using W unfolding mw g by arith
  show "unat TOP_BAR_HEIGHT \<le> unat (TOP_BAR_HEIGHT + g)"
    using uh(3) by (simp add: TOP_BAR_HEIGHT_def)
  show "unat (TOP_BAR_HEIGHT + g) + unat (H - TOP_BAR_HEIGHT - g - g) \<le> unat H"
    using H uh by linarith
qed

lemma stack_on_screen:
  fixes W H g r count :: u32
  assumes g: "unat g = 4" and r: "unat r = 60"
    and W: "34 \<le> unat W" "unat W \<le> 71582788" and H: "62 \<le> unat H"
    and c: "unat count \<le> 6" and i: "1 \<le> i" "i < unat count"
  shows "rect_in_screen W H
     \<lparr>pos_x = W * r div 100 - g * 2 + g * 2,
      pos_y = TOP_BAR_HEIGHT + g
                + (of_nat i - 1)
                  * ((H - TOP_BAR_HEIGHT - g - g * (count - 1 + 1)) div (count - 1) + g),
      pos_width = W - (W * r div 100 - g * 2) - g * 3,
      pos_height = (H - TOP_BAR_HEIGHT - g - g * (count - 1 + 1)) div (count - 1),
      pos_pid = p\<rparr>"
proof (rule rect_in_screenI)
  note mw = master_width_nat[OF g r W]
  have ui: "unat (of_nat i :: u32) = i" using i(2) c by (rule index_word)
  from i have "count \<noteq> 0" by (auto simp: unat_gt_0)
  then have uc: "unat (count - 1) = unat count - 1" by (simp add: unat_minus_one)
  from i ui have "(of_nat i :: u32) \<noteq> 0" by (auto simp: unat_gt_0[symmetric])
  then have uj: "unat ((of_nat i :: u32) - 1) = i - 1" by (simp add: unat_minus_one ui)
  have k: "0 < unat (count - 1)" "unat (count - 1) \<le> 6" using i c unfolding uc by simp_all
  have j: "unat ((of_nat i :: u32) - 1) < unat (count - 1)" using i unfolding uc uj by simp
  note tb = tile_word_below_bar[OF g H k j]
  show "0 < unat (W - (W * r div 100 - g * 2) - g * 3)" using W unfolding mw by arith
  show "0 < unat ((H - TOP_BAR_HEIGHT - g - g * (count - 1 + 1)) div (count - 1))"
    by (rule tb(1))
  show "unat (W * r div 100 - g * 2 + g * 2) + unat (W - (W * r div 100 - g * 2) - g * 3)
          \<le> unat W"
    using W unfolding mw by arith
  show "unat TOP_BAR_HEIGHT
          \<le> unat (TOP_BAR_HEIGHT + g + (of_nat i - 1)
                  * ((H - TOP_BAR_HEIGHT - g - g * (count - 1 + 1)) div (count - 1) + g))"
    by (rule tb(2))
  show "unat (TOP_BAR_HEIGHT + g + (of_nat i - 1)
                  * ((H - TOP_BAR_HEIGHT - g - g * (count - 1 + 1)) div (count - 1) + g))
          + unat ((H - TOP_BAR_HEIGHT - g - g * (count - 1 + 1)) div (count - 1)) \<le> unat H"
    by (rule tb(3))
qed


lemma default_gap: "unat (gap_size (DEFAULT_LAYOUTS t)) = 4"
  by (simp add: DEFAULT_LAYOUTS_def DEFAULT_GAP_SIZE_def)

lemma default_ratio: "unat (master_ratio (DEFAULT_LAYOUTS LAYOUT_MASTER_STACK)) = 60"
  by (simp add: DEFAULT_LAYOUTS_def MASTER_RATIO_MASTER_STACK_def)

lemma default_ltype: "ltype (DEFAULT_LAYOUTS t) = t"
  by (simp add: DEFAULT_LAYOUTS_def)

lemma default_rect_on_screen:
  assumes W: "34 \<le> unat W" and Wmax: "t = LAYOUT_MASTER_STACK \<longrightarrow> unat W \<le> 71582788"
    and H: "62 \<le> unat H"
    and c: "unat count \<le> MAX_WINDOWS_PER_WORKSPACE"
    and r: "compute_window_positions W H ps count (DEFAULT_LAYOUTS t) = Some ps'"
    and i: "i < unat count"
  shows "rect_in_screen W H (ps' ! i)"
proof -
  note g = default_gap[of t]
  from c have c6: "unat count \<le> 6" by (simp add: MAX_WINDOWS_PER_WORKSPACE_def)
  show ?thesis
  proof (cases t)
    case LAYOUT_HORIZONTAL
    then have "ltype (DEFAULT_LAYOUTS t) = LAYOUT_HORIZONTAL" by (simp add: default_ltype)
    from compute_horizontal_nth[OF r this i] show ?thesis
      by (simp only: horizontal_on_screen[OF g W H c6 i])
  next
    case LAYOUT_VERTICAL
    then have "ltype (DEFAULT_LAYOUTS t) = LAYOUT_VERTICAL" by (simp add: default_ltype)
    from compute_vertical_nth[OF r this i] show ?thesis
      by (simp only: vertical_on_screen[OF g W H c6 i])
  next
    case LAYOUT_GRID
    then have "ltype (DEFAULT_LAYOUTS t) = LAYOUT_GRID" by (simp add: default_ltype)
    from compute_grid_nth[OF r this i] show ?thesis
      by (simp only: grid_on_screen[OF g W H c6 i])
  next
    case LAYOUT_FULLSCREEN
    then have "ltype (DEFAULT_LAYOUTS t) = LAYOUT_FULLSCREEN" by (simp add: default_ltype)
    from compute_fullscreen_nth[OF r this i] show ?thesis
      by (simp only: fullscreen_on_screen[OF g W H])
  next
    case LAYOUT_MASTER_STACK
    then have lt: "ltype (DEFAULT_LAYOUTS t) = LAYOUT_MASTER_STACK" by (simp add: default_ltype)
    from LAYOUT_MASTER_STACK have ratio: "unat (master_ratio (DEFAULT_LAYOUTS t)) = 60"
      by (simp add: default_ratio)
    from LAYOUT_MASTER_STACK Wmax have W2: "unat W \<le> 71582788" by simp
    show ?thesis
    proof (cases "count = 1")
      case True
      with i have "i = 0" by simp
      with compute_master_single_nth[OF r[unfolded True] lt] show ?thesis
        by (simp only: fullscreen_on_screen[OF g W H])
    next
      case False
      show ?thesis
      proof (cases "i = 0")
        case True
        with compute_master_nth[OF r lt False i] show ?thesis
          by (simp only: simp_thms if_True master_on_screen[OF g ratio W W2 H])
      next
        case False
        then have "1 \<le> i" by simp
        from compute_master_nth[OF r lt \<open>count \<noteq> 1\<close> i] False show ?thesis
          by (simp only: simp_thms if_False stack_on_screen[OF g ratio W W2 H c6 \<open>1 \<le> i\<close> i])
      qed
    qed
  qed
qed

section \<open>Master-Stack widths in the natural numbers\<close>

lemma master_and_stack_unat:
  fixes W g r :: u32
  assumes p: "unat W * unat r < 2 ^ 32"
    and lo: "2 * unat g \<le> unat W * unat r div 100"
    and hi: "unat W * unat r div 100 + unat g \<le> unat W"
  shows "unat (W * r div 100 - g * 2) = unat W * unat r div 100 - 2 * unat g"
    and "unat (W - (W * r div 100 - g * 2) - g * 3)
           = unat W - (unat W * unat r div 100 - 2 * unat g) - 3 * unat g"
proof -
  define m where "m = W * r div 100"
  define M where "M = unat W * unat r div 100"
  have W32: "unat W < 2 ^ 32" using unsigned_less[of W] by simp
  have "unat W * unat r < 2 ^ LENGTH(32)" using p by simp
  then have "unat (W * r) = unat W * unat r" by (simp only: unat_mult_lem[THEN iffD1])
  then have m: "unat m = M" by (simp add: m_def M_def unat_div)
  have lo': "2 * unat g \<le> M" and hi': "M + unat g \<le> unat W"
    using lo hi by (simp_all add: M_def)
  have "unat g * unat (2 :: u32) < 2 ^ LENGTH(32)" using lo' hi' W32 by simp
  then have g2: "unat (g * 2) = 2 * unat g"
    by (simp only: unat_mult_lem[THEN iffD1]; simp)
  have "unat g * unat (3 :: u32) < 2 ^ LENGTH(32)" using lo' hi' W32 by simp
  then have g3: "unat (g * 3) = 3 * unat g"
    by (simp only: unat_mult_lem[THEN iffD1]; simp)
  have "g * 2 \<le> m" using lo' by (simp add: word_le_nat_alt g2 m)
  then have mw: "unat (m - g * 2) = M - 2 * unat g" by (simp only: unat_sub g2 m)
  have "m - g * 2 \<le> W" using lo' hi' by (simp add: word_le_nat_alt mw)
  then have rest: "unat (W - (m - g * 2)) = unat W - (M - 2 * unat g)"
    by (simp only: unat_sub mw)
  have "g * 3 \<le> W - (m - g * 2)" using lo' hi' by (simp add: word_le_nat_alt rest g3)
  then have sw: "unat (W - (m - g * 2) - g * 3) = unat W - (M - 2 * unat g) - 3 * unat g"
    by (simp only: unat_sub rest g3)
  show "unat (W * r div 100 - g * 2) = unat W * unat r div 100 - 2 * unat g"
    unfolding m_def[symmetric] M_def[symmetric] by (rule mw)
  show "unat (W - (W * r div 100 - g * 2) - g * 3)
           = unat W - (unat W * unat r div 100 - 2 * unat g) - 3 * unat g"
    unfolding m_def[symmetric] M_def[symmetric] by (rule sw)
qed

lemma single_rect_nat:
  fixes W H g :: u32
  assumes w: "2 * unat g \<le> unat W" and h: "unat TOP_BAR_HEIGHT + 2 * unat g \<le> unat H"
  shows "unat (TOP_BAR_HEIGHT + g) = unat TOP_BAR_HEIGHT + unat g"
    and "unat (W - g * 2) = unat W - 2 * unat g"
    and "unat (H - TOP_BAR_HEIGHT - g - g) = unat H - unat TOP_BAR_HEIGHT - unat g - unat g"
proof -
  have W32: "unat W < 2 ^ 32" using unsigned_less[of W] by simp
  have H32: "unat H < 2 ^ 32" using unsigned_less[of H] by simp
  have "unat TOP_BAR_HEIGHT + unat g < 2 ^ LENGTH(32)" using h H32 by simp
  then show t: "unat (TOP_BAR_HEIGHT + g) = unat TOP_BAR_HEIGHT + unat g"
    by (simp only: unat_add_lem[THEN iffD1])
  have "unat g * unat (2 :: u32) < 2 ^ LENGTH(32)" using w W32 by simp
  then have g2: "unat (g * 2) = 2 * unat g"
    by (simp only: unat_mult_lem[THEN iffD1]; simp)
  have "g * 2 \<le> W" using w by (simp add: word_le_nat_alt g2)
  then show "unat (W - g * 2) = unat W - 2 * unat g" by (simp only: unat_sub g2)
  have "TOP_BAR_HEIGHT \<le> H" using h by (simp add: word_le_nat_alt)
  then have a: "unat (H - TOP_BAR_HEIGHT) = unat H - unat TOP_BAR_HEIGHT"
    by (simp only: unat_sub)
  have "g \<le> H - TOP_BAR_HEIGHT" using h by (simp add: word_le_nat_alt a)
  then have b: "unat (H - TOP_BAR_HEIGHT - g) = unat H - unat TOP_BAR_HEIGHT - unat g"
    by (simp only: unat_sub a)
  have "g \<le> H - TOP_BAR_HEIGHT - g" using h by (simp add: word_le_nat_alt b)
  then show "unat (H - TOP_BAR_HEIGHT - g - g) = unat H - unat TOP_BAR_HEIGHT - unat g - unat g"
    by (simp only: unat_sub b)
qed

text \<open>With the compiled-in gap 4 and ratio 60 the three conditions on the width are the
  bounds \<open>14 \<le> W \<le> 71582788\<close>.\<close>

lemma default_master_stack_fits:
  "(unat W * unat (master_ratio (DEFAULT_LAYOUTS LAYOUT_MASTER_STACK)) < 2 ^ 32 \<and>
    2 * unat (gap_size (DEFAULT_LAYOUTS LAYOUT_MASTER_STACK))
      \<le> unat W * unat (master_ratio (DEFAULT_LAYOUTS LAYOUT_MASTER_STACK)) div 100 \<and>
    unat W * unat (master_ratio (DEFAULT_LAYOUTS LAYOUT_MASTER_STACK)) div 100
      + unat (gap_size (DEFAULT_LAYOUTS LAYOUT_MASTER_STACK)) \<le> unat W)
   \<longleftrightarrow> (14 \<le> unat W \<and> unat W \<le> 71582788)"
  unfolding default_gap default_ratio by simp arith

section \<open>Example states\<close>

lemma example_active: "active_workspace (example_state n f t) = example_workspace n f t"
  by (simp add: active_workspace_def example_state_def g_active_workspace_def)

lemma example_state_ok:
  assumes "n \<le> MAX_WINDOWS_PER_WORKSPACE" and "n = 0 \<or> unat f < n"
  shows "array_shapes (example_state n f t)"
    and "ws_invariant (active_workspace (example_state n f t))"
    and "snapshot_in_sync (example_state n f t)"
proof -
  from assms(1) have u: "unat (of_nat n :: u32) = n"
    by (simp add: unat_of_nat MAX_WINDOWS_PER_WORKSPACE_def)
  show "array_shapes (example_state n f t)"
    using assms(1)
    by (auto simp: array_shapes_def ws_shape_def example_active)
      (auto simp: example_state_def example_workspace_def example_window_def
        WORKSPACE_COUNT_def)
  show "ws_invariant (active_workspace (example_state n f t))"
    using assms u
    by (auto simp: example_active ws_invariant_def example_workspace_def word_less_nat_alt)
  show "snapshot_in_sync (example_state n f t)"
    by (simp add: snapshot_in_sync_def example_active)
      (simp add: example_state_def example_workspace_def DEFAULT_LAYOUTS_def)
qed

section \<open>Pixels of the example screen\<close>

lemma not_painted_beside:
  fixes px py w h a :: u32
  assumes dims: "g_fb_width st = 640" "g_fb_height st = 480" "g_fb_pitch_pixels st = 640"
    and right: "unat px + unat w \<le> c" and c: "c \<le> 640"
    and a: "c \<le> unat a mod 640"
  shows "\<not> painted st px py w h a"
proof
  assume "painted st px py w h a"
  then obtain dy dx where dx: "dx < unat w"
    and Y: "py + of_nat dy < (480 :: u32)"
    and eq: "a = (py + of_nat dy) * 640 + (px + of_nat dx)"
    by (auto simp: painted_def dims)
  define X where "X = px + (of_nat dx :: u32)"
  define Yw where "Yw = py + (of_nat dy :: u32)"
  have w32: "unat w < 2 ^ 32" using unsigned_less[of w] by simp
  with dx have udx: "unat (of_nat dx :: u32) = dx" by (simp add: unat_of_nat)
  have "unat px + unat (of_nat dx :: u32) < 2 ^ LENGTH(32)"
    using right c dx by (simp add: udx)
  then have uX: "unat X = unat px + dx"
    unfolding X_def by (simp only: unat_add_lem[THEN iffD1] udx)
  with right dx have Xc: "unat X < c" by simp
  from Y have uY: "unat Yw < 480" by (simp add: Yw_def word_less_nat_alt)
  have "unat Yw * unat (640 :: u32) < 2 ^ LENGTH(32)" using uY by simp
  then have m: "unat (Yw * 640) = unat Yw * 640"
    by (simp only: unat_mult_lem[THEN iffD1]; simp)
  have "unat (Yw * 640) + unat X < 2 ^ LENGTH(32)" using uY Xc c by (simp add: m)
  then have "unat (Yw * 640 + X) = unat Yw * 640 + unat X"
    by (simp only: unat_add_lem[THEN iffD1] m)
  then have "unat a = unat Yw * 640 + unat X" by (simp add: eq X_def Yw_def)
  with Xc c have "unat a mod 640 = unat X" by simp
  with a Xc show False by simp
qed

lemma painted_point:
  assumes "dx < unat w" "dy < unat h"
    and "px + of_nat dx < g_fb_width st" "py + of_nat dy < g_fb_height st"
    and "a = (py + of_nat dy) * g_fb_pitch_pixels st + (px + of_nat dx)"
  shows "painted st px py w h a"
  using assms unfolding painted_def by blast

lemma indicator_example:
  "g_framebuffer (draw_empty_desktop_indicator (example_state 0 0 LAYOUT_GRID)) 153920
     = COLOR_EMPTY_DESKTOP"
proof -
  have e: "draw_empty_desktop_indicator (example_state 0 0 LAYOUT_GRID)
      = fill_rect 316 236 8 8 COLOR_EMPTY_DESKTOP (example_state 0 0 LAYOUT_GRID)"
    by (simp add: draw_empty_desktop_indicator_def string_length_def c_string_def NUL_def
        SYMBOL_WIDTH_def SYMBOL_HEIGHT_def Let_def)
      (simp add: example_state_def)
  have "painted (example_state 0 0 LAYOUT_GRID) 316 236 8 8 153920"
    by (rule painted_point[of 4 _ 4]) (simp_all add: example_state_def)
  then show ?thesis by (simp add: e fill_rect_eq)
qed

text \<open>On the example screen a rectangle that fits the screen covers the pixels of its
  columns and rows and no other.\<close>

lemma painted_example:
  fixes px py w h a :: u32
  assumes dims: "g_fb_width st = 640" "g_fb_height st = 480" "g_fb_pitch_pixels st = 640"
    and x: "unat px + unat w \<le> 640" and y: "unat py + unat h \<le> 480"
  shows "painted st px py w h a \<longleftrightarrow>
           (unat px \<le> unat a mod 640 \<and> unat a mod 640 < unat px + unat w \<and>
            unat py \<le> unat a div 640 \<and> unat a div 640 < unat py + unat h)"
proof
  assume "painted st px py w h a"
  then obtain dy dx where dx: "dx < unat w" and dy: "dy < unat h"
    and eq: "a = (py + of_nat dy) * 640 + (px + of_nat dx)"
    by (auto simp: painted_def dims)
  define X where "X = px + (of_nat dx :: u32)"
  define Yw where "Yw = py + (of_nat dy :: u32)"
  have udx: "unat (of_nat dx :: u32) = dx" using dx x by (simp add: unat_of_nat)
  have udy: "unat (of_nat dy :: u32) = dy" using dy y by (simp add: unat_of_nat)
  have "unat px + unat (of_nat dx :: u32) < 2 ^ LENGTH(32)"
    using x dx by (simp add: udx)
  then have uX: "unat X = unat px + dx"
    unfolding X_def by (simp only: unat_add_lem[THEN iffD1] udx)
  have "unat py + unat (of_nat dy :: u32) < 2 ^ LENGTH(32)"
    using y dy by (simp add: udy)
  then have uY: "unat Yw = unat py + dy"
    unfolding Yw_def by (simp only: unat_add_lem[THEN iffD1] udy)
  have Xc: "unat X < 640" using uX x dx by simp
  have Yc: "unat Yw < 480" using uY y dy by simp
  have "unat Yw * unat (640 :: u32) < 2 ^ LENGTH(32)" using Yc by simp
  then have m: "unat (Yw * 640) = unat Yw * 640"
    by (simp only: unat_mult_lem[THEN iffD1]; simp)
  have "unat (Yw * 640) + unat X < 2 ^ LENGTH(32)" using Yc Xc by (simp add: m)
  then have "unat (Yw * 640 + X) = unat Yw * 640 + unat X"
    by (simp only: unat_add_lem[THEN iffD1] m)
  then have ua: "unat a = unat Yw * 640 + unat X" by (simp add: eq X_def Yw_def)
  with Xc have "unat a mod 640 = unat X" "unat a div 640 = unat Yw" by simp_all
  with uX uY dx dy
  show "unat px \<le> unat a mod 640 \<and> unat a mod 640 < unat px + unat w \<and>
        unat py \<le> unat a div 640 \<and> unat a div 640 < unat py + unat h"
    by simp
next
  assume r: "unat px \<le> unat a mod 640 \<and> unat a mod 640 < unat px + unat w \<and>
        unat py \<le> unat a div 640 \<and> unat a div 640 < unat py + unat h"
  define dx where "dx = unat a mod 640 - unat px"
  define dy where "dy = unat a div 640 - unat py"
  define X where "X = px + (of_nat dx :: u32)"
  define Yw where "Yw = py + (of_nat dy :: u32)"
  from r have dx: "dx < unat w" and dy: "dy < unat h"
    unfolding dx_def dy_def by linarith+
  have udx: "unat (of_nat dx :: u32) = dx" using dx x by (simp add: unat_of_nat)
  have udy: "unat (of_nat dy :: u32) = dy" using dy y by (simp add: unat_of_nat)
  have "unat px + unat (of_nat dx :: u32) < 2 ^ LENGTH(32)"
    using x dx by (simp add: udx)
  then have "unat X = unat px + dx"
    unfolding X_def by (simp only: unat_add_lem[THEN iffD1] udx)
  with r have uX: "unat X = unat a mod 640" unfolding dx_def by linarith
  have "unat py + unat (of_nat dy :: u32) < 2 ^ LENGTH(32)"
    using y dy by (simp add: udy)
  then have "unat Yw = unat py + dy"
    unfolding Yw_def by (simp only: unat_add_lem[THEN iffD1] udy)
  with r have uY: "unat Yw = unat a div 640" unfolding dy_def by linarith
  have Xc: "unat X < 640" using uX by simp
  have Yc: "unat Yw < 480" using uY r y by linarith
  have "unat Yw * unat (640 :: u32) < 2 ^ LENGTH(32)" using Yc by simp
  then have m: "unat (Yw * 640) = unat Yw * 640"
    by (simp only: unat_mult_lem[THEN iffD1]; simp)
  have "unat (Yw * 640) + unat X < 2 ^ LENGTH(32)" using Yc Xc by (simp add: m)
  then have "unat (Yw * 640 + X) = unat Yw * 640 + unat X"
    by (simp only: unat_add_lem[THEN iffD1] m)
  then have "unat (Yw * 640 + X) = unat a" by (simp add: uX uY)
  then have eq: "a = Yw * 640 + X" by (simp only: word_unat_eq_iff)
  have "X < 640" using Xc by (simp add: word_less_nat_alt)
  moreover have "Yw < 480" using Yc by (simp add: word_less_nat_alt)
  ultimately show "painted st px py w h a"
    using dx dy eq unfolding painted_def dims X_def Yw_def by blast
qed

section \<open>The claims\<close>

text \<open>
  C1, as amended. On a screen at least 34 pixels wide and 62 pixels high, and for
  Master-Stack at most 71582788 pixels wide (so that the product of the width and its
  ratio 60 fits 32 bits), for every window count from 1 to 6 and each of the five variants
  with its compiled-in configuration (gap 4, top bar 24), \<^verbatim>\<open>compute_window_positions\<close> assigns exactly
  the first \<open>count\<close> rectangles and leaves the other slots alone; each assigned rectangle
  has positive width and height and lies within \<open>[0, screen_width)\<close> horizontally and
  \<open>[24, screen_height)\<close> vertically.
\<close>

theorem default_layouts_on_screen:
  assumes "34 \<le> unat W" and "t = LAYOUT_MASTER_STACK \<longrightarrow> unat W \<le> 71582788"
    and "62 \<le> unat H"
    and "1 \<le> unat count" and "unat count \<le> MAX_WINDOWS_PER_WORKSPACE"
    and "unat count \<le> length ps"
  shows "\<exists>ps'. compute_window_positions W H ps count (DEFAULT_LAYOUTS t) = Some ps' \<and>
           length ps' = length ps \<and>
           (\<forall>i. i < unat count \<longrightarrow> rect_in_screen W H (ps' ! i)) \<and>
           (\<forall>i. unat count \<le> i \<and> i < length ps \<longrightarrow> ps' ! i = ps ! i)"
proof -
  from assms(5) have "unat count \<le> 6" by (simp add: MAX_WINDOWS_PER_WORKSPACE_def)
  from compute_defined_small[OF assms(6) this] obtain ps' where
    r: "compute_window_positions W H ps count (DEFAULT_LAYOUTS t) = Some ps'" by blast
  have "rect_in_screen W H (ps' ! i)" if "i < unat count" for i
    using assms(1,2,3,5) r that by (rule default_rect_on_screen)
  moreover have "ps' ! i = ps ! i" if "unat count \<le> i" "i < length ps" for i
    using r that by (rule compute_untouched)
  moreover have "length ps' = length ps" using r by (rule compute_length)
  ultimately show ?thesis using r by blast
qed

theorem default_layouts_on_screen_witness:
  "34 \<le> unat (640 :: u32) \<and> unat (640 :: u32) \<le> 71582788 \<and> 62 \<le> unat (480 :: u32)
   \<and> 1 \<le> unat (6 :: u32) \<and> unat (6 :: u32) \<le> MAX_WINDOWS_PER_WORKSPACE
   \<and> unat (6 :: u32) \<le> length local_positions
   \<and> (\<exists>ps'. compute_window_positions 640 480 local_positions 6
                (DEFAULT_LAYOUTS LAYOUT_MASTER_STACK) = Some ps' \<and>
          length ps' = 6 \<and>
          rect_in_screen 640 480 (ps' ! 0) \<and> rect_in_screen 640 480 (ps' ! 5))"
proof -
  have h: "34 \<le> unat (640 :: u32)"
    "LAYOUT_MASTER_STACK = LAYOUT_MASTER_STACK \<longrightarrow> unat (640 :: u32) \<le> 71582788"
    "62 \<le> unat (480 :: u32)"
    "1 \<le> unat (6 :: u32)" "unat (6 :: u32) \<le> MAX_WINDOWS_PER_WORKSPACE"
    "unat (6 :: u32) \<le> length local_positions"
    by (simp_all add: MAX_WINDOWS_PER_WORKSPACE_def local_positions_def)
  from default_layouts_on_screen[OF h] obtain ps' where
    "compute_window_positions 640 480 local_positions 6
                (DEFAULT_LAYOUTS LAYOUT_MASTER_STACK) = Some ps'"
    "length ps' = length local_positions"
    "\<forall>i. i < unat (6 :: u32) \<longrightarrow> rect_in_screen 640 480 (ps' ! i)"
    by blast
  then have "compute_window_positions 640 480 local_positions 6
                (DEFAULT_LAYOUTS LAYOUT_MASTER_STACK) = Some ps' \<and>
          length ps' = 6 \<and>
          rect_in_screen 640 480 (ps' ! 0) \<and> rect_in_screen 640 480 (ps' ! 5)"
    by (simp add: local_positions_def MAX_WINDOWS_PER_WORKSPACE_def)
  with h show ?thesis by simp
qed

text \<open>
  C1 as stated, for every screen, fails: on a 32 by 32 screen the Horizontal layout of 6
  windows gives window 0 the width \<open>(32 - 4 * 7) div 6 = 0\<close>.
\<close>

theorem small_screen_counterexample:
  "compute_window_positions 32 32 local_positions 6 (DEFAULT_LAYOUTS LAYOUT_HORIZONTAL) \<noteq> None
   \<and> pos_width (the (compute_window_positions 32 32 local_positions 6
                        (DEFAULT_LAYOUTS LAYOUT_HORIZONTAL)) ! 0) = 0
   \<and> \<not> rect_in_screen 32 32
         (the (compute_window_positions 32 32 local_positions 6
                 (DEFAULT_LAYOUTS LAYOUT_HORIZONTAL)) ! 0)"
proof -
  have "unat (6 :: u32) \<le> length local_positions"
    by (simp add: local_positions_def MAX_WINDOWS_PER_WORKSPACE_def)
  moreover have "unat (6 :: u32) \<le> 6" by simp
  ultimately obtain ps' where
    r: "compute_window_positions 32 32 local_positions 6 (DEFAULT_LAYOUTS LAYOUT_HORIZONTAL)
          = Some ps'"
    using compute_defined_small[of 6 local_positions 32 32 "DEFAULT_LAYOUTS LAYOUT_HORIZONTAL"]
    by blast
  have "pos_width (ps' ! 0) = 0"
    using compute_horizontal_nth[OF r default_ltype, of 0]
    by (simp add: default_ltype DEFAULT_LAYOUTS_def DEFAULT_GAP_SIZE_def)
  then show ?thesis
    by (simp add: r rect_in_screen_def)
qed

text \<open>
  C2. The predicate "a positive window count implies a focus index below the count, and
  the count is at most 6" holds of the active workspace after initialisation (before and
  after the first redraw), and each of \<^verbatim>\<open>add_window_to_current_workspace\<close>,
  \<^verbatim>\<open>close_current_window\<close>, \<^verbatim>\<open>cycle_focus\<close> and \<^verbatim>\<open>cycle_layout\<close> preserves it: from every
  state that satisfies it the operation leaves it true whenever it returns, and it does
  return whenever the snapshot is in sync (for adding: when the title fits the 32-byte
  buffer), which it then is again.
\<close>

theorem workspace_invariant_preserved:
  "ws_invariant (active_workspace (start_before_redraw fb w h pitch0 pitch))
   \<and> (\<exists>st. start fb w h pitch0 pitch = Some st \<and> ws_invariant (active_workspace st))
   \<and> (length (c_string new_title) < 32 \<longrightarrow>
        preserves_invariant (add_window_to_current_workspace new_title))
   \<and> preserves_invariant close_current_window
   \<and> preserves_invariant (cycle_focus direction)
   \<and> preserves_invariant cycle_layout"
proof (intro conjI impI)
  show i: "ws_invariant (active_workspace (start_before_redraw fb w h pitch0 pitch))"
    by (rule start_state_ok)
  have "start fb w h pitch0 pitch = Some (start_before_redraw fb w h pitch0 pitch)"
    unfolding start_def
    by (rule redraw_nothing) (simp_all add: start_before_redraw_fields DEFAULT_LAYOUTS_def)
  with i show "\<exists>st. start fb w h pitch0 pitch = Some st \<and> ws_invariant (active_workspace st)"
    by simp
next
  assume fits: "length (c_string new_title) < 32"
  show "preserves_invariant (add_window_to_current_workspace new_title)"
    unfolding preserves_invariant_def
  proof (intro allI impI conjI; elim conjE)
    fix st st'
    assume "array_shapes st" "ws_invariant (active_workspace st)"
      "add_window_to_current_workspace new_title st = Some st'"
    then show "ws_invariant (active_workspace st')" by (rule add_window_invariant)
  next
    fix st
    assume sh: "array_shapes st" and inv: "ws_invariant (active_workspace st)"
      and sync: "snapshot_in_sync st"
    from add_window_defined[OF sh inv sync fits] obtain st'
      where r: "add_window_to_current_workspace new_title st = Some st'" by blast
    from add_window_cases[OF sh inv r] sh sync
    have "array_shapes st' \<and> snapshot_in_sync st'" by auto
    with r show "\<exists>st'. add_window_to_current_workspace new_title st = Some st' \<and>
                   array_shapes st' \<and> snapshot_in_sync st'" by blast
  qed
next
  show "preserves_invariant close_current_window"
    unfolding preserves_invariant_def
  proof (intro allI impI conjI; elim conjE)
    fix st st'
    assume "array_shapes st" "ws_invariant (active_workspace st)"
      "close_current_window st = Some st'"
    then show "ws_invariant (active_workspace st')" by (rule close_window_invariant)
  next
    fix st
    assume sh: "array_shapes st" and inv: "ws_invariant (active_workspace st)"
      and sync: "snapshot_in_sync st"
    from close_window_defined[OF sh inv sync] obtain st'
      where r: "close_current_window st = Some st'" by blast
    from close_window_cases[OF sh inv r] sh sync
    have "array_shapes st' \<and> snapshot_in_sync st'" by auto
    with r show "\<exists>st'. close_current_window st = Some st' \<and>
                   array_shapes st' \<and> snapshot_in_sync st'" by blast
  qed
next
  show "preserves_invariant (cycle_focus direction)"
    unfolding preserves_invariant_def
  proof (intro allI impI conjI; elim conjE)
    fix st st'
    assume "array_shapes st" "ws_invariant (active_workspace st)"
      "cycle_focus direction st = Some st'"
    then show "ws_invariant (active_workspace st')" by (rule cycle_focus_invariant)
  next
    fix st
    assume sh: "array_shapes st" and inv: "ws_invariant (active_workspace st)"
      and sync: "snapshot_in_sync st"
    from cycle_focus_defined[OF sh inv sync] obtain st'
      where r: "cycle_focus direction st = Some st'" by blast
    from cycle_focus_cases[OF sh inv r] sh sync
    have "array_shapes st' \<and> snapshot_in_sync st'" by auto
    with r show "\<exists>st'. cycle_focus direction st = Some st' \<and>
                   array_shapes st' \<and> snapshot_in_sync st'" by blast
  qed
next
  show "preserves_invariant cycle_layout"
    unfolding preserves_invariant_def
  proof (intro allI impI conjI; elim conjE)
    fix st st'
    assume sh: "array_shapes st" and inv: "ws_invariant (active_workspace st)"
      and r: "cycle_layout st = Some st'"
    from after_mutation(1)[OF sh r[unfolded cycle_layout_eq]] inv
    show "ws_invariant (active_workspace st')" by (simp add: ws_invariant_def)
  next
    fix st
    assume sh: "array_shapes st" and inv: "ws_invariant (active_workspace st)"
      and sync: "snapshot_in_sync st"
    from cycle_layout_step[OF sh inv sync]
    show "\<exists>st'. cycle_layout st = Some st' \<and> array_shapes st' \<and> snapshot_in_sync st'"
      by blast
  qed
qed

theorem workspace_invariant_preserved_witness:
  "array_shapes (example_state 3 2 LAYOUT_GRID)
   \<and> ws_invariant (active_workspace (example_state 3 2 LAYOUT_GRID))
   \<and> snapshot_in_sync (example_state 3 2 LAYOUT_GRID)
   \<and> length (c_string ''template'') < 32
   \<and> (\<exists>st'. add_window_to_current_workspace ''template'' (example_state 3 2 LAYOUT_GRID) = Some st'
          \<and> ws_invariant (active_workspace st'))
   \<and> (\<exists>st'. close_current_window (example_state 3 2 LAYOUT_GRID) = Some st'
          \<and> ws_invariant (active_workspace st'))
   \<and> (\<exists>st'. cycle_focus 1 (example_state 3 2 LAYOUT_GRID) = Some st'
          \<and> ws_invariant (active_workspace st'))
   \<and> (\<exists>st'. cycle_layout (example_state 3 2 LAYOUT_GRID) = Some st'
          \<and> ws_invariant (active_workspace st'))"
proof -
  have ok: "array_shapes (example_state 3 2 LAYOUT_GRID)"
    "ws_invariant (active_workspace (example_state 3 2 LAYOUT_GRID))"
    "snapshot_in_sync (example_state 3 2 LAYOUT_GRID)"
    by (rule example_state_ok; simp add: MAX_WINDOWS_PER_WORKSPACE_def)+
  have fits: "length (c_string ''template'') < 32"
    by (simp add: c_string_def NUL_def)
  note p = workspace_invariant_preserved[of "\<lambda>_. 0" 640 480 640 640 "''template''" 1]
  from p fits have "preserves_invariant (add_window_to_current_workspace ''template'')"
    and "preserves_invariant close_current_window"
    and "preserves_invariant (cycle_focus 1)"
    and "preserves_invariant cycle_layout" by blast+
  with ok fits show ?thesis
    unfolding preserves_invariant_def by (intro conjI) blast+
qed

text \<open>
  C3, as amended. Master-Stack layout, the values read as natural numbers and \<open>div\<close> the
  integer division. With one window, when \<open>2 * gap \<le> screen_width\<close> and
  \<open>top bar + 2 * gap \<le> screen_height\<close>, the rectangle is the full usable area: \<open>x = gap\<close>,
  \<open>y = top bar + gap\<close>, width \<open>screen_width - 2 * gap\<close>, height \<open>usable_height - gap\<close>
  where \<open>usable_height = screen_height - top bar - gap\<close>. With two or more windows, when
  \<open>screen_width * ratio\<close> fits 32 bits, \<open>2 * gap \<le> screen_width * ratio div 100\<close> and
  \<open>screen_width * ratio div 100 + gap \<le> screen_width\<close> (for the compiled-in gap 4 and
  ratio 60: \<open>14 \<le> screen_width \<le> 71582788\<close>, lemma \<open>default_master_stack_fits\<close>), the
  width of the master rectangle is \<open>screen_width * ratio div 100 - 2 * gap\<close>, and the width
  of the master rectangle plus the width of any stack rectangle plus \<open>3 * gap\<close> is the
  screen width.
\<close>

theorem master_stack_widths:
  assumes "ltype config = LAYOUT_MASTER_STACK" and "unat count \<le> length ps"
  shows "let gap = unat (gap_size config);
             ratio = unat (master_ratio config);
             top = unat TOP_BAR_HEIGHT;
             usable_height = unat H - top - gap
         in (count = 1 \<and> 2 * gap \<le> unat W \<and> top + 2 * gap \<le> unat H \<longrightarrow>
               (\<exists>ps'. compute_window_positions W H ps count config = Some ps' \<and>
                  unat (pos_x (ps' ! 0)) = gap \<and>
                  unat (pos_y (ps' ! 0)) = top + gap \<and>
                  unat (pos_width (ps' ! 0)) = unat W - 2 * gap \<and>
                  unat (pos_height (ps' ! 0)) = usable_height - gap))
          \<and> (2 \<le> unat count \<and> unat W * ratio < 2 ^ 32 \<and>
              2 * gap \<le> unat W * ratio div 100 \<and> unat W * ratio div 100 + gap \<le> unat W \<longrightarrow>
               (\<exists>ps'. compute_window_positions W H ps count config = Some ps' \<and>
                  unat (pos_width (ps' ! 0)) = unat W * ratio div 100 - 2 * gap \<and>
                  (\<forall>i. 1 \<le> i \<and> i < unat count \<longrightarrow>
                     unat (pos_width (ps' ! 0)) + unat (pos_width (ps' ! i)) + 3 * gap
                       = unat W)))"
proof -
  define g where "g = gap_size config"
  define r where "r = master_ratio config"
  from assms(1) have "(count + 1) div 2 \<noteq> 0 \<or> ltype config \<noteq> LAYOUT_GRID" by simp
  from compute_defined[OF assms(2) this] obtain ps' where
    c: "compute_window_positions W H ps count config = Some ps'" by blast
  have single: "unat (pos_x (ps' ! 0)) = unat g \<and>
                unat (pos_y (ps' ! 0)) = unat TOP_BAR_HEIGHT + unat g \<and>
                unat (pos_width (ps' ! 0)) = unat W - 2 * unat g \<and>
                unat (pos_height (ps' ! 0)) = unat H - unat TOP_BAR_HEIGHT - unat g - unat g"
    if "count = 1" "2 * unat g \<le> unat W" "unat TOP_BAR_HEIGHT + 2 * unat g \<le> unat H"
    unfolding compute_master_single_nth[OF c[unfolded that(1)] assms(1)] g_def[symmetric]
    by (simp only: window_position_t.simps single_rect_nat[OF that(2,3)] simp_thms)
  have many: "unat (pos_width (ps' ! 0)) = unat W * unat r div 100 - 2 * unat g \<and>
              (\<forall>i. 1 \<le> i \<and> i < unat count \<longrightarrow>
                 unat (pos_width (ps' ! 0)) + unat (pos_width (ps' ! i)) + 3 * unat g
                   = unat W)"
    if n: "2 \<le> unat count" and p: "unat W * unat r < 2 ^ 32"
      and lo: "2 * unat g \<le> unat W * unat r div 100"
      and hi: "unat W * unat r div 100 + unat g \<le> unat W"
  proof -
    note mw = master_and_stack_unat[OF p lo hi]
    from n have ne: "count \<noteq> 1" by auto
    from n have "0 < unat count" by simp
    from compute_master_nth[OF c assms(1) ne this]
    have "pos_width (ps' ! 0) = W * r div 100 - g * 2" by (simp add: g_def r_def)
    then have m: "unat (pos_width (ps' ! 0)) = unat W * unat r div 100 - 2 * unat g"
      by (simp only: mw)
    have "unat (pos_width (ps' ! 0)) + unat (pos_width (ps' ! i)) + 3 * unat g = unat W"
      if "1 \<le> i" "i < unat count" for i
    proof -
      from compute_master_nth[OF c assms(1) ne that(2)] that(1)
      have "pos_width (ps' ! i) = W - (W * r div 100 - g * 2) - g * 3"
        by (simp add: g_def r_def)
      then have "unat (pos_width (ps' ! i))
                   = unat W - (unat W * unat r div 100 - 2 * unat g) - 3 * unat g"
        by (simp only: mw)
      with m lo hi show ?thesis by linarith
    qed
    with m show ?thesis by blast
  qed
  from c single many show ?thesis
    unfolding Let_def g_def[symmetric] r_def[symmetric]
    by blast
qed

theorem master_stack_widths_witness:
  "ltype (DEFAULT_LAYOUTS LAYOUT_MASTER_STACK) = LAYOUT_MASTER_STACK
   \<and> unat (3 :: u32) \<le> length local_positions
   \<and> 2 \<le> unat (3 :: u32)
   \<and> unat (640 :: u32) * unat (master_ratio (DEFAULT_LAYOUTS LAYOUT_MASTER_STACK)) < 2 ^ 32
   \<and> (\<exists>ps'. compute_window_positions 640 480 local_positions 3
                (DEFAULT_LAYOUTS LAYOUT_MASTER_STACK) = Some ps' \<and>
          unat (pos_width (ps' ! 0)) = 376 \<and>
          unat (pos_width (ps' ! 1)) = 252 \<and>
          unat (pos_width (ps' ! 2)) = 252)
   \<and> (\<exists>ps'. compute_window_positions 640 480 local_positions 1
                (DEFAULT_LAYOUTS LAYOUT_MASTER_STACK) = Some ps' \<and>
          unat (pos_x (ps' ! 0)) = 4 \<and> unat (pos_y (ps' ! 0)) = 28 \<and>
          unat (pos_width (ps' ! 0)) = 632 \<and> unat (pos_height (ps' ! 0)) = 448)"
proof -
  have h: "ltype (DEFAULT_LAYOUTS LAYOUT_MASTER_STACK) = LAYOUT_MASTER_STACK"
    "unat (3 :: u32) \<le> length local_positions"
    by (simp_all add: DEFAULT_LAYOUTS_def local_positions_def MAX_WINDOWS_PER_WORKSPACE_def)
  have h1: "unat (1 :: u32) \<le> length local_positions"
    by (simp add: local_positions_def MAX_WINDOWS_PER_WORKSPACE_def)
  have n: "2 \<le> unat (3 :: u32)" by simp
  have p: "unat (640 :: u32) * unat (master_ratio (DEFAULT_LAYOUTS LAYOUT_MASTER_STACK)) < 2 ^ 32"
    by (simp add: default_ratio)
  from master_stack_widths[OF h, where W = 640 and H = 480] obtain ps' where
    "compute_window_positions 640 480 local_positions 3
                (DEFAULT_LAYOUTS LAYOUT_MASTER_STACK) = Some ps'"
    "unat (pos_width (ps' ! 0)) = 376"
    "\<forall>i. 1 \<le> i \<and> i < 3 \<longrightarrow> unat (pos_width (ps' ! i)) = 252"
    by (auto simp: Let_def default_gap default_ratio)
  then have many: "\<exists>ps'. compute_window_positions 640 480 local_positions 3
                (DEFAULT_LAYOUTS LAYOUT_MASTER_STACK) = Some ps' \<and>
          unat (pos_width (ps' ! 0)) = 376 \<and>
          unat (pos_width (ps' ! 1)) = 252 \<and>
          unat (pos_width (ps' ! 2)) = 252"
    by auto
  from master_stack_widths[OF h(1) h1, where W = 640 and H = 480]
  have single: "\<exists>ps'. compute_window_positions 640 480 local_positions 1
                (DEFAULT_LAYOUTS LAYOUT_MASTER_STACK) = Some ps' \<and>
          unat (pos_x (ps' ! 0)) = 4 \<and> unat (pos_y (ps' ! 0)) = 28 \<and>
          unat (pos_width (ps' ! 0)) = 632 \<and> unat (pos_height (ps' ! 0)) = 448"
    by (auto simp: Let_def default_gap default_ratio TOP_BAR_HEIGHT_def)
  from h n p many single show ?thesis by blast
qed

text \<open>
  C3 as stated, for every screen, fails: on a screen 10 pixels wide the default
  Master-Stack layout (gap 4, ratio 60) of two windows computes the master width
  \<open>10 * 60 div 100 - 2 * 4 = 6 - 8\<close>, which wraps around to 4294967294, and the stack width
  0; their sum with \<open>3 * gap\<close> is not 10.
\<close>

theorem master_stack_narrow_screen_counterexample:
  "compute_window_positions 10 480 local_positions 2
      (DEFAULT_LAYOUTS LAYOUT_MASTER_STACK) \<noteq> None
   \<and> unat (pos_width (the (compute_window_positions 10 480 local_positions 2
                              (DEFAULT_LAYOUTS LAYOUT_MASTER_STACK)) ! 0)) = 4294967294
   \<and> unat (pos_width (the (compute_window_positions 10 480 local_positions 2
                              (DEFAULT_LAYOUTS LAYOUT_MASTER_STACK)) ! 1)) = 0
   \<and> unat (pos_width (the (compute_window_positions 10 480 local_positions 2
                              (DEFAULT_LAYOUTS LAYOUT_MASTER_STACK)) ! 0))
       + unat (pos_width (the (compute_window_positions 10 480 local_positions 2
                                 (DEFAULT_LAYOUTS LAYOUT_MASTER_STACK)) ! 1))
       + 3 * unat (gap_size (DEFAULT_LAYOUTS LAYOUT_MASTER_STACK)) \<noteq> unat (10 :: u32)"
proof -
  have "unat (2 :: u32) \<le> length local_positions"
    by (simp add: local_positions_def MAX_WINDOWS_PER_WORKSPACE_def)
  moreover have "unat (2 :: u32) \<le> 6" by simp
  ultimately obtain ps' where
    r: "compute_window_positions 10 480 local_positions 2 (DEFAULT_LAYOUTS LAYOUT_MASTER_STACK)
          = Some ps'"
    using compute_defined_small[of 2 local_positions 10 480 "DEFAULT_LAYOUTS LAYOUT_MASTER_STACK"]
    by blast
  have "pos_width (ps' ! 0) = 4294967294"
    using compute_master_nth[OF r default_ltype, of 0]
    by (simp add: DEFAULT_LAYOUTS_def DEFAULT_GAP_SIZE_def MASTER_RATIO_MASTER_STACK_def)
  moreover have "pos_width (ps' ! 1) = 0"
    using compute_master_nth[OF r default_ltype, of 1]
    by (simp add: DEFAULT_LAYOUTS_def DEFAULT_GAP_SIZE_def MASTER_RATIO_MASTER_STACK_def)
  ultimately show ?thesis
    by (simp add: r default_gap)
qed

text \<open>
  C4. When \<^verbatim>\<open>redraw_incremental\<close> finds the count and the variant of the active workspace
  equal to the snapshot's and the focus index different (both focus indices pointing at
  windows), it draws exactly two window frames and nothing else: the rectangle of the old
  focus index, computed by the layout engine, with the plain border, then the rectangle
  of the new focus index with the border multiplied by 3. The calls of \<^verbatim>\<open>fill_rect\<close> made
  are the five of the first frame followed by the five of the second, and the pixels
  afterwards are the old pixels painted over by these ten calls in order: inside each
  frame the background colour, on its edges the border colour, elsewhere the old colour.
  Apart from pixels only the focus index of the snapshot changes: rectangles, count and
  variant of the snapshot stay (\<open>draws\<close> says so), so the structural path was not taken.
  The witness is a 640 by 480 screen in the bar colour with two windows in the Grid layout,
  at columns 4 to 317 and 322 to 635: in row 100 the old focus gets a border two pixels
  wide (columns 4 and 5) and the new focus one six pixels wide (columns 322 to 327).
\<close>

theorem focus_change_redraws_two_frames:
  assumes "window_count (active_workspace st) = g_prev_window_count st"
    and "ltype (layout (active_workspace st)) = g_prev_layout st"
    and "focused_window_index (active_workspace st) \<noteq> g_prev_focused st"
    and "unat (window_count (active_workspace st)) \<le> MAX_WINDOWS_PER_WORKSPACE"
    and "g_prev_focused st < window_count (active_workspace st)"
    and "focused_window_index (active_workspace st) < window_count (active_workspace st)"
  shows "\<exists>ps st'.
           compute_window_positions (g_fb_width st) (g_fb_height st) local_positions
             (window_count (active_workspace st)) (layout (active_workspace st)) = Some ps \<and>
           redraw_incremental st = Some st' \<and>
           draws st
             (frame_calls (ps ! unat (g_prev_focused st))
                (border_size (layout (active_workspace st)))
                (border_color (layout (active_workspace st)))
              @ frame_calls (ps ! unat (focused_window_index (active_workspace st)))
                  (border_size (layout (active_workspace st)) * FOCUSED_BORDER_MULTIPLIER)
                  (border_color (layout (active_workspace st))))
             (st'\<lparr>g_prev_focused := g_prev_focused st\<rparr>) \<and>
           g_framebuffer st' =
             paint_calls st
               (frame_calls (ps ! unat (g_prev_focused st))
                  (border_size (layout (active_workspace st)))
                  (border_color (layout (active_workspace st)))
                @ frame_calls (ps ! unat (focused_window_index (active_workspace st)))
                    (border_size (layout (active_workspace st)) * FOCUSED_BORDER_MULTIPLIER)
                    (border_color (layout (active_workspace st))))
               (g_framebuffer st) \<and>
           g_prev_focused st' = focused_window_index (active_workspace st)"
proof -
  define ws where "ws = active_workspace st"
  define cs where "cs ps = frame_calls (ps ! unat (g_prev_focused st)) (border_size (layout ws))
             (border_color (layout ws))
           @ frame_calls (ps ! unat (focused_window_index ws))
               (border_size (layout ws) * FOCUSED_BORDER_MULTIPLIER) (border_color (layout ws))"
    for ps
  from redraw_focus[OF assms] obtain ps where
    ps: "compute_window_positions (g_fb_width st) (g_fb_height st) local_positions
           (window_count ws) (layout ws) = Some ps"
    and r: "redraw_incremental st =
             Some ((draw_window_frame (ps ! unat (focused_window_index ws))
                      (border_size (layout ws)) (border_color (layout ws)) True
                      (draw_window_frame (ps ! unat (g_prev_focused st))
                         (border_size (layout ws)) (border_color (layout ws)) False st))
                   \<lparr>g_prev_focused := focused_window_index ws\<rparr>)"
    unfolding ws_def by blast
  define s2 where "s2 = draw_window_frame (ps ! unat (focused_window_index ws))
                      (border_size (layout ws)) (border_color (layout ws)) True
                      (draw_window_frame (ps ! unat (g_prev_focused st))
                         (border_size (layout ws)) (border_color (layout ws)) False st)"
  have d: "draws st (cs ps) s2"
    unfolding cs_def s2_def
    using draws_append[OF draws_window_frame[of st _ False] draws_window_frame[of _ _ True]]
    by simp
  then have fb: "g_framebuffer s2 = paint_calls st (cs ps) (g_framebuffer st)"
    by (simp only: draws_def)
  let ?st' = "s2\<lparr>g_prev_focused := focused_window_index ws\<rparr>"
  have "redraw_incremental st = Some ?st'" using r by (simp only: s2_def)
  moreover have "draws st (cs ps) (?st'\<lparr>g_prev_focused := g_prev_focused st\<rparr>)"
    using d by (rule draws_reset_focus)
  moreover have "g_framebuffer ?st' = paint_calls st (cs ps) (g_framebuffer st)"
    using fb by simp
  moreover have "g_prev_focused ?st' = focused_window_index ws" by simp
  ultimately show ?thesis
    using ps unfolding ws_def cs_def by blast
qed

theorem focus_change_redraws_two_frames_witness:
  "window_count (active_workspace ((example_state 2 1 LAYOUT_GRID)\<lparr>g_prev_focused := 0\<rparr>))
     = g_prev_window_count ((example_state 2 1 LAYOUT_GRID)\<lparr>g_prev_focused := 0\<rparr>)
   \<and> ltype (layout (active_workspace ((example_state 2 1 LAYOUT_GRID)\<lparr>g_prev_focused := 0\<rparr>)))
     = g_prev_layout ((example_state 2 1 LAYOUT_GRID)\<lparr>g_prev_focused := 0\<rparr>)
   \<and> focused_window_index (active_workspace ((example_state 2 1 LAYOUT_GRID)\<lparr>g_prev_focused := 0\<rparr>))
     \<noteq> g_prev_focused ((example_state 2 1 LAYOUT_GRID)\<lparr>g_prev_focused := 0\<rparr>)
   \<and> (\<exists>st'. redraw_incremental ((example_state 2 1 LAYOUT_GRID)\<lparr>g_prev_focused := 0\<rparr>) = Some st'
          \<and> length (fill_trace st') = 10
          \<and> fill_trace st' =
               [FillRect 6 30 310 440 COLOR_WINDOW_BG,
                FillRect 4 28 314 2 COLOR_BORDER_NORMAL,
                FillRect 4 470 314 2 COLOR_BORDER_NORMAL,
                FillRect 4 28 2 444 COLOR_BORDER_NORMAL,
                FillRect 316 28 2 444 COLOR_BORDER_NORMAL,
                FillRect 328 34 302 432 COLOR_WINDOW_BG,
                FillRect 322 28 314 6 COLOR_BORDER_NORMAL,
                FillRect 322 466 314 6 COLOR_BORDER_NORMAL,
                FillRect 322 28 6 444 COLOR_BORDER_NORMAL,
                FillRect 630 28 6 444 COLOR_BORDER_NORMAL]
          \<and> g_framebuffer st' 64003 = COLOR_BAR_BG
          \<and> g_framebuffer st' 64004 = COLOR_BORDER_NORMAL
          \<and> g_framebuffer st' 64005 = COLOR_BORDER_NORMAL
          \<and> g_framebuffer st' 64006 = COLOR_WINDOW_BG
          \<and> g_framebuffer st' 64321 = COLOR_BAR_BG
          \<and> g_framebuffer st' 64322 = COLOR_BORDER_NORMAL
          \<and> g_framebuffer st' 64327 = COLOR_BORDER_NORMAL
          \<and> g_framebuffer st' 64328 = COLOR_WINDOW_BG
          \<and> g_prev_focused st' = 1
          \<and> g_prev_positions st' = g_prev_positions (example_state 2 1 LAYOUT_GRID)
          \<and> g_prev_window_count st' = 2
          \<and> g_prev_layout st' = LAYOUT_GRID)"
proof -
  define st where "st = (example_state 2 1 LAYOUT_GRID)\<lparr>g_prev_focused := 0\<rparr>"
  have a: "active_workspace st = example_workspace 2 1 LAYOUT_GRID"
    by (simp add: st_def active_workspace_def example_state_def g_active_workspace_def)
  have f: "g_prev_window_count st = 2" "g_prev_layout st = LAYOUT_GRID" "g_prev_focused st = 0"
    "fill_trace st = []" "g_prev_positions st = g_prev_positions (example_state 2 1 LAYOUT_GRID)"
    by (simp_all add: st_def example_state_def)
  have dims: "g_fb_width st = 640" "g_fb_height st = 480" "g_fb_pitch_pixels st = 640"
    by (simp_all add: st_def example_state_def)
  have bg: "g_framebuffer st = (\<lambda>_. COLOR_BAR_BG)"
    by (simp add: st_def example_state_def)
  have w: "window_count (example_workspace 2 1 LAYOUT_GRID) = 2"
    "ltype (layout (example_workspace 2 1 LAYOUT_GRID)) = LAYOUT_GRID"
    "focused_window_index (example_workspace 2 1 LAYOUT_GRID) = 1"
    "layout (example_workspace 2 1 LAYOUT_GRID) = DEFAULT_LAYOUTS LAYOUT_GRID"
    by (simp_all add: example_workspace_def DEFAULT_LAYOUTS_def)
  have h: "window_count (active_workspace st) = g_prev_window_count st"
    "ltype (layout (active_workspace st)) = g_prev_layout st"
    "focused_window_index (active_workspace st) \<noteq> g_prev_focused st"
    "unat (window_count (active_workspace st)) \<le> MAX_WINDOWS_PER_WORKSPACE"
    "g_prev_focused st < window_count (active_workspace st)"
    "focused_window_index (active_workspace st) < window_count (active_workspace st)"
    by (simp_all add: a f w(1-3) MAX_WINDOWS_PER_WORKSPACE_def)
  from focus_change_redraws_two_frames[OF h] obtain ps st' where
    c: "compute_window_positions (g_fb_width st) (g_fb_height st) local_positions
             (window_count (active_workspace st)) (layout (active_workspace st)) = Some ps"
    and r: "redraw_incremental st = Some st'"
    and d: "draws st
             (frame_calls (ps ! unat (g_prev_focused st))
                (border_size (layout (active_workspace st)))
                (border_color (layout (active_workspace st)))
              @ frame_calls (ps ! unat (focused_window_index (active_workspace st)))
                  (border_size (layout (active_workspace st)) * FOCUSED_BORDER_MULTIPLIER)
                  (border_color (layout (active_workspace st))))
             (st'\<lparr>g_prev_focused := g_prev_focused st\<rparr>)"
    and fb: "g_framebuffer st' =
             paint_calls st
               (frame_calls (ps ! unat (g_prev_focused st))
                  (border_size (layout (active_workspace st)))
                  (border_color (layout (active_workspace st)))
                @ frame_calls (ps ! unat (focused_window_index (active_workspace st)))
                    (border_size (layout (active_workspace st)) * FOCUSED_BORDER_MULTIPLIER)
                    (border_color (layout (active_workspace st))))
               (g_framebuffer st)"
    and g: "g_prev_focused st' = focused_window_index (active_workspace st)"
    by blast
  from c have c': "compute_window_positions 640 480 local_positions 2
                     (DEFAULT_LAYOUTS LAYOUT_GRID) = Some ps"
    by (simp add: a w dims)
  have p0: "pos_x (ps ! 0) = 4" "pos_y (ps ! 0) = 28" "pos_width (ps ! 0) = 314"
    "pos_height (ps ! 0) = 444"
    using compute_grid_nth[OF c' default_ltype, of 0]
    by (simp_all add: DEFAULT_LAYOUTS_def DEFAULT_GAP_SIZE_def TOP_BAR_HEIGHT_def)
  have p1: "pos_x (ps ! Suc 0) = 322" "pos_y (ps ! Suc 0) = 28" "pos_width (ps ! Suc 0) = 314"
    "pos_height (ps ! Suc 0) = 444"
    using compute_grid_nth[OF c' default_ltype, of 1]
    by (simp_all add: DEFAULT_LAYOUTS_def DEFAULT_GAP_SIZE_def TOP_BAR_HEIGHT_def)
  have fb': "g_framebuffer st' =
      paint_calls st
        [FillRect 6 30 310 440 COLOR_WINDOW_BG,
         FillRect 4 28 314 2 COLOR_BORDER_NORMAL,
         FillRect 4 470 314 2 COLOR_BORDER_NORMAL,
         FillRect 4 28 2 444 COLOR_BORDER_NORMAL,
         FillRect 316 28 2 444 COLOR_BORDER_NORMAL,
         FillRect 328 34 302 432 COLOR_WINDOW_BG,
         FillRect 322 28 314 6 COLOR_BORDER_NORMAL,
         FillRect 322 466 314 6 COLOR_BORDER_NORMAL,
         FillRect 322 28 6 444 COLOR_BORDER_NORMAL,
         FillRect 630 28 6 444 COLOR_BORDER_NORMAL]
        (\<lambda>_. COLOR_BAR_BG)"
    unfolding fb
    by (simp add: a f w bg frame_calls_def p0 p1 FOCUSED_BORDER_MULTIPLIER_def
        DEFAULT_LAYOUTS_def DEFAULT_BORDER_SIZE_def)
  from d have "fill_trace st' =
             frame_calls (ps ! unat (g_prev_focused st))
                (border_size (layout (active_workspace st)))
                (border_color (layout (active_workspace st)))
              @ frame_calls (ps ! unat (focused_window_index (active_workspace st)))
                  (border_size (layout (active_workspace st)) * FOCUSED_BORDER_MULTIPLIER)
                  (border_color (layout (active_workspace st)))"
    by (simp add: draws_def f)
  then have tr: "fill_trace st' =
               [FillRect 6 30 310 440 COLOR_WINDOW_BG,
                FillRect 4 28 314 2 COLOR_BORDER_NORMAL,
                FillRect 4 470 314 2 COLOR_BORDER_NORMAL,
                FillRect 4 28 2 444 COLOR_BORDER_NORMAL,
                FillRect 316 28 2 444 COLOR_BORDER_NORMAL,
                FillRect 328 34 302 432 COLOR_WINDOW_BG,
                FillRect 322 28 314 6 COLOR_BORDER_NORMAL,
                FillRect 322 466 314 6 COLOR_BORDER_NORMAL,
                FillRect 322 28 6 444 COLOR_BORDER_NORMAL,
                FillRect 630 28 6 444 COLOR_BORDER_NORMAL]"
    by (simp add: a f w frame_calls_def p0 p1 FOCUSED_BORDER_MULTIPLIER_def
        DEFAULT_LAYOUTS_def DEFAULT_BORDER_SIZE_def)
  note pe = painted_example[OF dims]
  have px: "g_framebuffer st' 64003 = COLOR_BAR_BG"
    "g_framebuffer st' 64004 = COLOR_BORDER_NORMAL"
    "g_framebuffer st' 64005 = COLOR_BORDER_NORMAL"
    "g_framebuffer st' 64006 = COLOR_WINDOW_BG"
    "g_framebuffer st' 64321 = COLOR_BAR_BG"
    "g_framebuffer st' 64322 = COLOR_BORDER_NORMAL"
    "g_framebuffer st' 64327 = COLOR_BORDER_NORMAL"
    "g_framebuffer st' 64328 = COLOR_WINDOW_BG"
    unfolding fb' by (simp_all add: paint_calls_def pe)
  from d have "length (fill_trace st') = 10" "g_prev_positions st' = g_prev_positions st"
    "g_prev_window_count st' = g_prev_window_count st" "g_prev_layout st' = g_prev_layout st"
    by (simp_all add: draws_def only_draws_def f length_frame_calls)
  with r g h(1,2,3) px tr show ?thesis
    unfolding st_def[symmetric] by (simp add: a f w(1-3))
qed

text \<open>
  C5. On a non-empty workspace \<^verbatim>\<open>close_current_window\<close> decrements the count by one; the
  windows that remain are the old ones without the focused slot, in their old order
  (slot \<open>i\<close> keeps its window below the focused index and receives the window of slot
  \<open>i + 1\<close> from there on); the focus becomes 0 when the workspace is now empty, the new
  last index when the old focus index is not below the new count, and stays otherwise.
  The witness closes the window at index 1 of three: the windows of the old indices 0 and
  2 end up at indices 0 and 1.
\<close>

theorem close_removes_focused_slot:
  assumes sh: "array_shapes st" and inv: "ws_invariant (active_workspace st)"
    and sync: "snapshot_in_sync st"
    and nonempty: "window_count (active_workspace st) \<noteq> 0"
  shows "\<exists>st'. close_current_window st = Some st' \<and>
           window_count (active_workspace st') = window_count (active_workspace st) - 1 \<and>
           unat (window_count (active_workspace st'))
             = unat (window_count (active_workspace st)) - 1 \<and>
           take (unat (window_count (active_workspace st')))  (windows (active_workspace st'))
             = take (unat (focused_window_index (active_workspace st)))
                 (windows (active_workspace st))
               @ drop (unat (focused_window_index (active_workspace st)) + 1)
                   (take (unat (window_count (active_workspace st)))
                      (windows (active_workspace st))) \<and>
           (\<forall>i < unat (window_count (active_workspace st')).
              windows (active_workspace st') ! i
                = windows (active_workspace st)
                    ! (if i < unat (focused_window_index (active_workspace st))
                       then i else i + 1)) \<and>
           focused_window_index (active_workspace st')
             = (if window_count (active_workspace st') = 0 then 0
                else if window_count (active_workspace st')
                          \<le> focused_window_index (active_workspace st)
                then window_count (active_workspace st') - 1
                else focused_window_index (active_workspace st)) \<and>
           layout (active_workspace st') = layout (active_workspace st)"
proof -
  define ws where "ws = active_workspace st"
  define n where "n = window_count ws"
  define f where "f = focused_window_index ws"
  from close_window_defined[OF sh inv sync] obtain st'
    where r: "close_current_window st = Some st'" by blast
  from close_window_cases[OF sh inv r] nonempty
  have a: "active_workspace st' =
      ws\<lparr>windows := shift_left (unat f) (unat (n - 1)) (windows ws),
         window_count := n - 1,
         focused_window_index := (if n - 1 = 0 then 0 else if n - 1 \<le> f then n - 1 - 1 else f)\<rparr>"
    by (simp add: ws_def n_def f_def)
  from nonempty have n0: "n \<noteq> 0" by (simp add: n_def ws_def)
  then have u: "unat (n - 1) = unat n - 1" by (simp add: unat_minus_one)
  from inv n0 have fn: "unat f < unat n" and le: "unat n \<le> MAX_WINDOWS_PER_WORKSPACE"
    by (simp_all add: ws_invariant_def n_def f_def ws_def word_neq_0_conv word_less_nat_alt)
  from sh have len: "length (windows ws) = MAX_WINDOWS_PER_WORKSPACE"
    by (simp add: array_shapes_def ws_shape_def ws_def)
  have t: "take (unat n - 1) (shift_left (unat f) (unat n - 1) (windows ws))
        = take (unat f) (windows ws) @ drop (unat f + 1) (take (unat n) (windows ws))"
    using fn le len by (intro shift_left_removes) simp_all
  have nth: "shift_left (unat f) (unat n - 1) (windows ws) ! i
        = windows ws ! (if i < unat f then i else i + 1)" if "i < unat n - 1" for i
    using that fn le len by (simp add: nth_shift_left)
  from r t nth show ?thesis
    unfolding ws_def[symmetric] n_def[symmetric] f_def[symmetric]
    by (intro exI[of _ st']) (simp add: a u)
qed

theorem close_removes_focused_slot_witness:
  "array_shapes (example_state 3 1 LAYOUT_GRID)
   \<and> ws_invariant (active_workspace (example_state 3 1 LAYOUT_GRID))
   \<and> snapshot_in_sync (example_state 3 1 LAYOUT_GRID)
   \<and> window_count (active_workspace (example_state 3 1 LAYOUT_GRID)) \<noteq> 0
   \<and> (\<exists>st'. close_current_window (example_state 3 1 LAYOUT_GRID) = Some st' \<and>
          window_count (active_workspace st') = 2 \<and>
          windows (active_workspace st') ! 0 = example_window 0 \<and>
          windows (active_workspace st') ! 1 = example_window 2 \<and>
          focused_window_index (active_workspace st') = 1)"
proof -
  have ok: "array_shapes (example_state 3 1 LAYOUT_GRID)"
    "ws_invariant (active_workspace (example_state 3 1 LAYOUT_GRID))"
    "snapshot_in_sync (example_state 3 1 LAYOUT_GRID)"
    by (rule example_state_ok; simp add: MAX_WINDOWS_PER_WORKSPACE_def)+
  have ws: "window_count (active_workspace (example_state 3 1 LAYOUT_GRID)) = 3"
    "focused_window_index (active_workspace (example_state 3 1 LAYOUT_GRID)) = 1"
    "windows (active_workspace (example_state 3 1 LAYOUT_GRID)) ! 0 = example_window 0"
    "windows (active_workspace (example_state 3 1 LAYOUT_GRID)) ! Suc (Suc 0) = example_window 2"
    by (simp_all add: example_active example_workspace_def upt_rec nth_append
        numeral_2_eq_2[symmetric])
  have ne: "window_count (active_workspace (example_state 3 1 LAYOUT_GRID)) \<noteq> 0"
    by (simp add: ws)
  from close_removes_focused_slot[OF ok ne] obtain st' where
    c: "close_current_window (example_state 3 1 LAYOUT_GRID) = Some st'"
      "window_count (active_workspace st') = 3 - 1"
      "\<forall>i < unat (window_count (active_workspace st')).
              windows (active_workspace st') ! i
                = windows (active_workspace (example_state 3 1 LAYOUT_GRID))
                    ! (if i < unat (1 :: u32) then i else i + 1)"
      "focused_window_index (active_workspace st')
             = (if window_count (active_workspace st') = 0 then 0
                else if window_count (active_workspace st') \<le> 1
                then window_count (active_workspace st') - 1
                else 1)"
    unfolding ws by blast
  from c(2) have n: "window_count (active_workspace st') = 2" by simp
  from c(3)[rule_format, of 0] c(3)[rule_format, of 1]
  have "windows (active_workspace st') ! 0 = example_window 0"
    and "windows (active_workspace st') ! 1 = example_window 2"
    by (simp_all add: n ws)
  moreover from c(4) have "focused_window_index (active_workspace st') = 1"
    by (simp add: n)
  ultimately show ?thesis using ok ne c(1) n by blast
qed

text \<open>
  C6. The Grid layout has 2 columns and \<open>rows = (count + 1) div 2\<close> rows, which is
  the least number with \<open>count \<le> 2 * rows\<close>; for every count from 1 to 6 window \<open>i\<close>
  is placed in column \<open>i mod 2\<close> and row \<open>i div 2\<close>, and the cell height is computed
  from \<open>rows\<close> whether or not the last row is full. The witness is count 5 on a 640 by
  480 screen: 3 rows of height 145, window 4 in column 0 of row 2 (indices 0 to 4 leave
  that row's second cell empty).
\<close>

theorem grid_layout_cells:
  assumes "ltype config = LAYOUT_GRID"
    and "1 \<le> unat count" and "unat count \<le> 6"
    and "unat count \<le> length ps" and "i < unat count"
  shows "let gap = gap_size config;
             rows = (unat count + 1) div 2;
             cell_width = (W - gap * 3) div 2;
             cell_height = (H - TOP_BAR_HEIGHT - gap - gap * (of_nat rows + 1)) div of_nat rows
         in unat count \<le> 2 * rows \<and> 2 * rows < unat count + 2 \<and>
            (\<exists>ps'. compute_window_positions W H ps count config = Some ps' \<and>
               ps' ! i = \<lparr>pos_x = gap + of_nat (i mod 2) * (cell_width + gap),
                          pos_y = TOP_BAR_HEIGHT + gap + of_nat (i div 2) * (cell_height + gap),
                          pos_width = cell_width,
                          pos_height = cell_height,
                          pos_pid = pos_pid (ps ! i)\<rparr>)"
proof -
  from compute_defined_small[OF assms(4,3)] obtain ps' where
    c: "compute_window_positions W H ps count config = Some ps'" by blast
  from assms(3,5) have i: "i < 2 ^ 32" by simp
  have "ps' ! i = \<lparr>pos_x = gap_size config + of_nat (i mod 2)
                        * ((W - gap_size config * 3) div 2 + gap_size config),
                   pos_y = TOP_BAR_HEIGHT + gap_size config + of_nat (i div 2)
                        * ((H - TOP_BAR_HEIGHT - gap_size config
                             - gap_size config * (of_nat ((unat count + 1) div 2) + 1))
                            div of_nat ((unat count + 1) div 2) + gap_size config),
                   pos_width = (W - gap_size config * 3) div 2,
                   pos_height = (H - TOP_BAR_HEIGHT - gap_size config
                             - gap_size config * (of_nat ((unat count + 1) div 2) + 1))
                            div of_nat ((unat count + 1) div 2),
                   pos_pid = pos_pid (ps ! i)\<rparr>"
    unfolding compute_grid_nth[OF c assms(1,5)] grid_rows[OF assms(3)]
      of_nat_mod2[OF i] of_nat_div2[OF i]
    by simp
  moreover have "unat count \<le> 2 * ((unat count + 1) div 2)"
    and "2 * ((unat count + 1) div 2) < unat count + 2" by arith+
  ultimately show ?thesis
    unfolding Let_def using c by blast
qed

theorem grid_layout_cells_witness:
  "ltype (DEFAULT_LAYOUTS LAYOUT_GRID) = LAYOUT_GRID
   \<and> 1 \<le> unat (5 :: u32) \<and> unat (5 :: u32) \<le> 6
   \<and> unat (5 :: u32) \<le> length local_positions \<and> 4 < unat (5 :: u32)
   \<and> (\<exists>ps'. compute_window_positions 640 480 local_positions 5 (DEFAULT_LAYOUTS LAYOUT_GRID)
               = Some ps' \<and>
          ps' ! 4 = \<lparr>pos_x = 4, pos_y = 326, pos_width = 314, pos_height = 145, pos_pid = 0\<rparr>)"
proof -
  have h: "ltype (DEFAULT_LAYOUTS LAYOUT_GRID) = LAYOUT_GRID"
    "1 \<le> unat (5 :: u32)" "unat (5 :: u32) \<le> 6"
    "unat (5 :: u32) \<le> length local_positions" "4 < unat (5 :: u32)"
    by (simp_all add: DEFAULT_LAYOUTS_def local_positions_def MAX_WINDOWS_PER_WORKSPACE_def)
  from grid_layout_cells[OF h, of 640 480] h show ?thesis
    by (simp add: Let_def DEFAULT_LAYOUTS_def DEFAULT_GAP_SIZE_def TOP_BAR_HEIGHT_def
        local_positions_def MAX_WINDOWS_PER_WORKSPACE_def)
qed



text \<open>
  C8. \<^verbatim>\<open>add_window_to_current_workspace\<close> on a workspace that already holds 6 windows
  returns the state it was given: count, window slots, focus and layout are untouched, the
  snapshot is untouched (no redraw), and the trace of draw calls has not grown.
\<close>

theorem add_at_capacity_is_noop:
  "window_count (active_workspace st) = 6 \<Longrightarrow>
   add_window_to_current_workspace new_title st = Some st"
  by (simp add: add_window_to_current_workspace_def MAX_WINDOWS_PER_WORKSPACE_def)

theorem add_at_capacity_is_noop_witness:
  "window_count (active_workspace (example_state 6 5 LAYOUT_GRID)) = 6 \<and>
   add_window_to_current_workspace ''template'' (example_state 6 5 LAYOUT_GRID)
     = Some (example_state 6 5 LAYOUT_GRID)"
proof -
  have h: "window_count (active_workspace (example_state 6 5 LAYOUT_GRID)) = 6"
    by (simp add: example_state_def example_workspace_def active_workspace_def
        g_active_workspace_def)
  from add_at_capacity_is_noop[OF h] h show ?thesis by simp
qed

text \<open>
  C9. Right after initialisation every workspace is empty with the Grid layout and focus
  0, and the snapshot holds count 0, variant Grid and focus 0. The first call of
  \<^verbatim>\<open>redraw_incremental\<close>, the one \<^verbatim>\<open>_start\<close> makes, then changes nothing and draws nothing:
  neither the structural test nor the focus test holds. The only call of \<^verbatim>\<open>fill_rect\<close>
  made during start-up is the one of \<^verbatim>\<open>clear_screen\<close> on the still 0 by 0 screen, so the
  indicator of the empty workspace is not drawn and the framebuffer is as the kernel
  handed it out.
\<close>

theorem first_redraw_draws_nothing:
  "redraw_incremental (start_before_redraw fb w h pitch0 pitch)
     = Some (start_before_redraw fb w h pitch0 pitch)
   \<and> start fb w h pitch0 pitch = Some (start_before_redraw fb w h pitch0 pitch)
   \<and> fill_trace (start_before_redraw fb w h pitch0 pitch) = [FillRect 0 0 0 0 COLOR_BAR_BG]
   \<and> g_framebuffer (start_before_redraw fb w h pitch0 pitch) = fb"
proof -
  have "redraw_incremental (start_before_redraw fb w h pitch0 pitch)
     = Some (start_before_redraw fb w h pitch0 pitch)"
    by (rule redraw_nothing) (simp_all add: start_before_redraw_fields DEFAULT_LAYOUTS_def)
  then show ?thesis
    by (simp add: start_def start_before_redraw_fields)
qed

theorem first_redraw_draws_nothing_witness:
  "start (\<lambda>_. 0) 640 480 640 640 = Some (start_before_redraw (\<lambda>_. 0) 640 480 640 640)
   \<and> fill_trace (start_before_redraw (\<lambda>_. 0) 640 480 640 640)
       = [FillRect 0 0 0 0 COLOR_BAR_BG]"
  using first_redraw_draws_nothing[of "\<lambda>_. 0" 640 480 640 640] by blast

text \<open>
  C10. On a structural change whose snapshot count is 0 and whose workspace is not empty,
  the erase loop does nothing (\<open>erase_previous st = st\<close>): the calls made are exactly
  those of the frames of the new windows. Every pixel that none of these calls writes
  keeps its colour; so pixels of the indicator of the empty workspace survive wherever no
  new frame covers them. The witness is the 640 by 480 screen with the indicator drawn and
  a first window added in the Grid layout: the window's frame ends at column 317, and the
  pixel at column 320 of row 240 still has the indicator's colour after the redraw.
\<close>

theorem first_windows_drawn_without_erasing:
  assumes "array_shapes st"
    and "g_prev_window_count st = 0"
    and "window_count (active_workspace st) \<noteq> 0"
    and "unat (window_count (active_workspace st)) \<le> MAX_WINDOWS_PER_WORKSPACE"
  shows "\<exists>ps st'.
           compute_window_positions (g_fb_width st) (g_fb_height st) local_positions
             (window_count (active_workspace st)) (layout (active_workspace st)) = Some ps \<and>
           redraw_incremental st = Some st' \<and>
           erase_previous st = st \<and>
           fill_trace st' = fill_trace st @ all_frame_calls (active_workspace st) ps \<and>
           (\<forall>a. (\<forall>c \<in> set (all_frame_calls (active_workspace st) ps). \<not> paints st c a)
                \<longrightarrow> g_framebuffer st' a = g_framebuffer st a)"
proof -
  define ws where "ws = active_workspace st"
  have e: "erase_previous st = st" using assms(2) by (rule erase_previous_nothing)
  from assms have "\<exists>ps. compute_window_positions (g_fb_width st) (g_fb_height st) local_positions
                (window_count (active_workspace st)) (layout (active_workspace st)) = Some ps \<and>
           redraw_incremental st =
             Some (update_snapshot (active_workspace st)
                     (draw_windows (active_workspace st) ps (erase_previous st)))"
    by (intro redraw_structural_windows) (simp_all add: array_shapes_def ws_shape_def)
  then obtain ps where
    ps: "compute_window_positions (g_fb_width st) (g_fb_height st) local_positions
           (window_count ws) (layout ws) = Some ps"
    and r: "redraw_incremental st = Some (update_snapshot ws (draw_windows ws ps st))"
    unfolding ws_def e by blast
  from draw_windows_draws[of st ws ps]
  have "fill_trace (update_snapshot ws (draw_windows ws ps st))
          = fill_trace st @ all_frame_calls ws ps"
    and "\<forall>a. (\<forall>c \<in> set (all_frame_calls ws ps). \<not> paints st c a)
          \<longrightarrow> g_framebuffer (update_snapshot ws (draw_windows ws ps st)) a = g_framebuffer st a"
    by (simp_all add: draws_def update_snapshot_def paint_calls_unpainted)
  with ps r e show ?thesis
    unfolding ws_def by blast
qed

theorem first_windows_drawn_without_erasing_witness:
  "array_shapes (set_active_workspace (example_workspace 1 0 LAYOUT_GRID)
       (draw_empty_desktop_indicator (example_state 0 0 LAYOUT_GRID)))
   \<and> g_prev_window_count (set_active_workspace (example_workspace 1 0 LAYOUT_GRID)
       (draw_empty_desktop_indicator (example_state 0 0 LAYOUT_GRID))) = 0
   \<and> window_count (active_workspace (set_active_workspace (example_workspace 1 0 LAYOUT_GRID)
       (draw_empty_desktop_indicator (example_state 0 0 LAYOUT_GRID)))) = 1
   \<and> g_framebuffer (set_active_workspace (example_workspace 1 0 LAYOUT_GRID)
       (draw_empty_desktop_indicator (example_state 0 0 LAYOUT_GRID))) 153920
       = COLOR_EMPTY_DESKTOP
   \<and> (\<exists>st'. redraw_incremental (set_active_workspace (example_workspace 1 0 LAYOUT_GRID)
              (draw_empty_desktop_indicator (example_state 0 0 LAYOUT_GRID))) = Some st'
          \<and> length (fill_trace st') = 6
          \<and> g_framebuffer st' 153920 = COLOR_EMPTY_DESKTOP)"
proof -
  define s1 where "s1 = draw_empty_desktop_indicator (example_state 0 0 LAYOUT_GRID)"
  define ws where "ws = example_workspace 1 0 LAYOUT_GRID"
  define st where "st = set_active_workspace ws s1"
  have s1: "g_workspaces s1 = g_workspaces (example_state 0 0 LAYOUT_GRID)"
    "g_fb_width s1 = 640" "g_fb_height s1 = 480" "g_fb_pitch_pixels s1 = 640"
    "g_prev_window_count s1 = 0"
    "length (g_prev_positions s1) = MAX_WINDOWS_PER_WORKSPACE"
    "length (fill_trace s1) = 1"
    by (simp_all add: s1_def indicator_fields)
      (simp_all add: example_state_def draw_empty_desktop_indicator_def string_length_def
        c_string_def NUL_def Let_def fill_rect_eq)
  have ne: "g_workspaces s1 \<noteq> []" by (simp add: s1 example_state_def)
  have a: "active_workspace st = ws" unfolding st_def by (rule active_set_active[OF ne])
  have dims: "g_fb_width st = 640" "g_fb_height st = 480" "g_fb_pitch_pixels st = 640"
    and pc: "g_prev_window_count st = 0"
    and tr: "length (fill_trace st) = 1"
    by (simp_all add: st_def set_active_fields s1)
  have px: "g_framebuffer st 153920 = COLOR_EMPTY_DESKTOP"
    by (simp add: st_def set_active_fields s1_def indicator_example)
  have "array_shapes (example_state 1 0 LAYOUT_GRID)"
    by (rule example_state_ok) (simp_all add: MAX_WINDOWS_PER_WORKSPACE_def)
  then have "ws_shape ws"
    by (simp add: array_shapes_def example_active ws_def)
  then have sh: "array_shapes st"
    by (simp add: array_shapes_def a)
      (simp add: st_def set_active_fields s1 example_state_def WORKSPACE_COUNT_def)
  have w: "window_count ws = 1" "focused_window_index ws = 0" "layout ws = DEFAULT_LAYOUTS LAYOUT_GRID"
    "pid (windows ws ! 0) = 0"
    by (simp_all add: ws_def example_workspace_def example_window_def)
  have h: "window_count (active_workspace st) \<noteq> 0"
    "unat (window_count (active_workspace st)) \<le> MAX_WINDOWS_PER_WORKSPACE"
    by (simp_all add: a w MAX_WINDOWS_PER_WORKSPACE_def)
  from first_windows_drawn_without_erasing[OF sh pc h] obtain ps st' where
    c: "compute_window_positions 640 480 local_positions 1 (DEFAULT_LAYOUTS LAYOUT_GRID) = Some ps"
    and r: "redraw_incremental st = Some st'"
    and t: "fill_trace st' = fill_trace st @ all_frame_calls ws ps"
    and keep: "\<forall>x. (\<forall>c \<in> set (all_frame_calls ws ps). \<not> paints st c x)
                \<longrightarrow> g_framebuffer st' x = g_framebuffer st x"
    unfolding a dims w by blast
  have p0: "ps ! 0 = \<lparr>pos_x = 4, pos_y = 28, pos_width = 314, pos_height = 444, pos_pid = 0\<rparr>"
    using compute_grid_nth[OF c default_ltype, of 0]
    by (simp add: DEFAULT_LAYOUTS_def DEFAULT_GAP_SIZE_def TOP_BAR_HEIGHT_def
        local_positions_def MAX_WINDOWS_PER_WORKSPACE_def)
  have calls: "all_frame_calls ws ps =
      [FillRect 10 34 302 432 COLOR_WINDOW_BG,
       FillRect 4 28 314 6 COLOR_BORDER_NORMAL,
       FillRect 4 466 314 6 COLOR_BORDER_NORMAL,
       FillRect 4 28 6 444 COLOR_BORDER_NORMAL,
       FillRect 312 28 6 444 COLOR_BORDER_NORMAL]"
    by (simp add: all_frame_calls_def w window_rect_def window_border_def p0 frame_calls_def
        DEFAULT_LAYOUTS_def DEFAULT_BORDER_SIZE_def FOCUSED_BORDER_MULTIPLIER_def)
  have "\<not> painted st px py w h 153920" if "unat px + unat w \<le> 320" for px py w h
    using dims that by (rule not_painted_beside) simp_all
  then have "\<forall>c \<in> set (all_frame_calls ws ps). \<not> paints st c 153920"
    by (simp add: calls)
  with keep px have "g_framebuffer st' 153920 = COLOR_EMPTY_DESKTOP" by simp
  moreover from t tr have "length (fill_trace st') = 6" by (simp add: calls)
  ultimately show ?thesis
    using sh pc a w(1) px r
    unfolding st_def ws_def s1_def by auto
qed

end
